theory Spec2Isabelle
  imports Complex_Main "HOL-Library.Sublist"
begin

section \<open>Values shared by the models, the serializers and the seeder\<close>

text \<open>
  A calendar date (\<open>datetime.date\<close>) is its proleptic ordinal, so that adding a
  \<open>timedelta(days=n)\<close> is integer addition and the ordering of dates is the ordering
  of integers. A date object is always truthy; only \<open>None\<close> is falsy.
\<close>

type_synonym date = int

text \<open>
  \<open>decimal.Decimal\<close> as Python stores a finite one: a sign, a coefficient and an
  exponent; the number is \<open>(-1)^sign * coefficient * 10^exponent\<close>.
\<close>

record decimal =
  dec_sign :: bool
  dec_int :: nat
  dec_exp :: int

definition dec_val :: "decimal \<Rightarrow> rat" where
  "dec_val d =
     (if dec_sign d then - 1 else 1) * of_nat (dec_int d) *
     (if 0 \<le> dec_exp d then 10 ^ nat (dec_exp d) else 1 / 10 ^ nat (- dec_exp d))"

text \<open>\<open>value <= 0\<close> and \<open>value > 0\<close> for a Decimal against the integer zero.\<close>

definition dec_le_zero :: "decimal \<Rightarrow> bool" where
  "dec_le_zero d = (dec_int d = 0 \<or> dec_sign d)"

definition dec_gt_zero :: "decimal \<Rightarrow> bool" where
  "dec_gt_zero d = (dec_int d \<noteq> 0 \<and> \<not> dec_sign d)"

text \<open>The exceptions the modelled code can raise.\<close>

datatype error =
    ValidationError string
  | IntegrityError
  | IndexError
  | ZeroDivisionError
  | ValueError
  | MultipleObjectsReturned

section \<open>listings/models.py\<close>

record user =
  user_id :: nat
  username :: string
  email :: string
  first_name :: string
  last_name :: string
  password :: string
  is_superuser :: bool

record listing =
  property_id :: nat
  host :: nat
  name :: string
  description :: string
  location :: string
  price_per_night :: decimal

text \<open>
  A Booking instance in memory: the two date attributes may still be \<open>None\<close> when
  \<open>clean\<close> runs, so they are optional here.
\<close>

record booking =
  booking_id :: nat
  booking_property :: nat
  booking_user :: nat
  start_date :: "date option"
  end_date :: "date option"
  total_price :: decimal
  status :: string

record review =
  review_id :: nat
  review_property :: nat
  review_user :: nat
  rating :: int
  comment :: string

text \<open>
  \<open>Booking.clean\<close>: the condition is
  \<open>self.end_date and self.start_date and self.end_date <= self.start_date\<close>.
\<close>

definition Booking_clean :: "booking \<Rightarrow> error + unit" where
  "Booking_clean self =
     (case (end_date self, start_date self) of
        (Some e, Some s) \<Rightarrow>
          if e \<le> s then Inl (ValidationError ''End date must be after start date.'')
          else Inr ()
      | _ \<Rightarrow> Inr ())"

section \<open>listings/serializers.py\<close>

text \<open>\<open>ListingSerializer.validate_price_per_night\<close>.\<close>

definition validate_price_per_night :: "decimal \<Rightarrow> error + decimal" where
  "validate_price_per_night v =
     (if dec_le_zero v then Inl (ValidationError ''Price per night must be greater than zero.'')
      else Inr v)"

text \<open>
  \<open>BookingSerializer.validate_booking\<close>. The argument \<open>data\<close> is the dictionary of
  validated fields restricted to its date entries, the only ones the hook reads:
  \<open>data.get(k)\<close> is \<open>None\<close> for an absent key. \<open>inst\<close> is \<open>self.instance\<close>
  (\<open>None\<close> on create) and \<open>today\<close> is \<open>timezone.now().date()\<close>.
\<close>

definition validate_booking ::
  "booking option \<Rightarrow> date \<Rightarrow> (string \<rightharpoonup> date) \<Rightarrow> error + (string \<rightharpoonup> date)" where
  "validate_booking inst today data =
     (case (data ''start_date'', data ''end_date'') of
        (Some s, Some e) \<Rightarrow>
          if e \<le> s then Inl (ValidationError ''End date must be after start date.'')
          else if inst = None then
            (if s < today then Inl (ValidationError ''Start date cannot be in the past.'')
             else Inr data)
          else Inr data
      | _ \<Rightarrow> Inr data)"

text \<open>\<open>ReviewSerializer.validate_rating\<close>.\<close>

definition validate_rating :: "int \<Rightarrow> error + int" where
  "validate_rating v =
     (if v < 1 \<or> v > 5 then Inl (ValidationError ''Rating must be between 1 and 5.'')
      else Inr v)"

section \<open>The persistent store and the framework operations the code calls\<close>

text \<open>
  The four tables, in insertion order, and the source of fresh primary keys. A
  \<open>uuid.uuid4\<close> default and an auto-increment key are both modelled as a key never handed
  out before.
\<close>

record store =
  users :: "user list"
  listings :: "listing list"
  bookings :: "booking list"
  reviews :: "review list"
  next_id :: nat

definition empty_store :: store where
  "empty_store = \<lparr>users = [], listings = [], bookings = [], reviews = [], next_id = 0\<rparr>"

text \<open>
  Modelled from the spec: \<open>Listing.objects.create\<close> and \<open>Booking.objects.create\<close> of the
  framework's manager (not in the repository) insert one row with a fresh identifier and
  return it; they run no validator.
\<close>

definition Listing_objects_create ::
  "store \<Rightarrow> nat \<Rightarrow> string \<Rightarrow> string \<Rightarrow> string \<Rightarrow> decimal \<Rightarrow> listing \<times> store" where
  "Listing_objects_create s h n d l p =
     (let row = \<lparr>property_id = next_id s, host = h, name = n, description = d,
                  location = l, price_per_night = p\<rparr>
      in (row, s\<lparr>listings := listings s @ [row], next_id := Suc (next_id s)\<rparr>))"

definition Booking_objects_create ::
  "store \<Rightarrow> nat \<Rightarrow> nat \<Rightarrow> date \<Rightarrow> date \<Rightarrow> decimal \<Rightarrow> string \<Rightarrow> booking \<times> store" where
  "Booking_objects_create s pr us sd ed tp st =
     (let row = \<lparr>booking_id = next_id s, booking_property = pr, booking_user = us,
                  start_date = Some sd, end_date = Some ed, total_price = tp, status = st\<rparr>
      in (row, s\<lparr>bookings := bookings s @ [row], next_id := Suc (next_id s)\<rparr>))"

text \<open>
  Modelled from the spec: the insert of a Review under
  \<open>Review.Meta.unique_together = ['property', 'user']\<close>; the enforcing code is the
  framework's and the database's. A row whose (property, user) pair is already stored is
  rejected with an integrity error and nothing is written; the result is the outcome and
  the store afterwards.
\<close>

definition review_pair :: "review \<Rightarrow> nat \<times> nat" where
  "review_pair r = (review_property r, review_user r)"

definition Review_objects_create ::
  "store \<Rightarrow> nat \<Rightarrow> nat \<Rightarrow> int \<Rightarrow> string \<Rightarrow> (error + review) \<times> store" where
  "Review_objects_create s pr us rt cm =
     (if (pr, us) \<in> set (map review_pair (reviews s)) then (Inl IntegrityError, s)
      else
        let row = \<lparr>review_id = next_id s, review_property = pr, review_user = us,
                    rating = rt, comment = cm\<rparr>
        in (Inr row, s\<lparr>reviews := reviews s @ [row], next_id := Suc (next_id s)\<rparr>))"

text \<open>
  Modelled from the spec: deletion with \<open>on_delete=models.CASCADE\<close>, which the framework
  carries out. Deleting Listings deletes the Bookings and Reviews whose \<open>property\<close> is one of
  them; deleting Users deletes the Listings they host (with their dependents) and the
  Bookings and Reviews whose \<open>user\<close> is one of them.
\<close>

definition cascade_listings :: "nat list \<Rightarrow> store \<Rightarrow> store" where
  "cascade_listings pks s =
     s\<lparr>listings := filter (\<lambda>l. property_id l \<notin> set pks) (listings s),
       bookings := filter (\<lambda>b. booking_property b \<notin> set pks) (bookings s),
       reviews := filter (\<lambda>r. review_property r \<notin> set pks) (reviews s)\<rparr>"

definition cascade_users :: "nat list \<Rightarrow> store \<Rightarrow> store" where
  "cascade_users pks s =
     (let hosted = map property_id (filter (\<lambda>l. host l \<in> set pks) (listings s));
          s1 = cascade_listings hosted s
      in s1\<lparr>users := filter (\<lambda>u. user_id u \<notin> set pks) (users s1),
             bookings := filter (\<lambda>b. booking_user b \<notin> set pks) (bookings s1),
             reviews := filter (\<lambda>r. review_user r \<notin> set pks) (reviews s1)\<rparr>)"

text \<open>\<open>listing.delete()\<close> on one instance.\<close>

definition Listing_delete :: "listing \<Rightarrow> store \<Rightarrow> store" where
  "Listing_delete l s = cascade_listings [property_id l] s"

text \<open>The four querysets that \<open>handle\<close> deletes under \<open>--clear\<close>.\<close>

definition Review_objects_all_delete :: "store \<Rightarrow> store" where
  "Review_objects_all_delete s = s\<lparr>reviews := []\<rparr>"

definition Booking_objects_all_delete :: "store \<Rightarrow> store" where
  "Booking_objects_all_delete s = s\<lparr>bookings := []\<rparr>"

definition Listing_objects_all_delete :: "store \<Rightarrow> store" where
  "Listing_objects_all_delete s = cascade_listings (map property_id (listings s)) s"

definition User_objects_filter_not_superuser_delete :: "store \<Rightarrow> store" where
  "User_objects_filter_not_superuser_delete s =
     cascade_users (map user_id (filter (\<lambda>u. \<not> is_superuser u) (users s))) s"

text \<open>
  Modelled from the spec: \<open>User.objects.get_or_create(username=..., defaults=...)\<close> of the
  framework: the row with that username if there is exactly one, a new row built from the
  defaults if there is none (create-if-absent), an error if there are several.
  \<open>user.save()\<close> rewrites the row with the instance's primary key, or inserts it.
\<close>

definition User_objects_get_or_create ::
  "store \<Rightarrow> string \<Rightarrow> string \<Rightarrow> string \<Rightarrow> string \<Rightarrow> error + ((user \<times> bool) \<times> store)" where
  "User_objects_get_or_create s un em fnm lnm =
     (case filter (\<lambda>u. username u = un) (users s) of
        [] \<Rightarrow>
          let row = \<lparr>user_id = next_id s, username = un, email = em, first_name = fnm,
                      last_name = lnm, password = [], is_superuser = False\<rparr>
          in Inr ((row, True), s\<lparr>users := users s @ [row], next_id := Suc (next_id s)\<rparr>)
      | [u] \<Rightarrow> Inr ((u, False), s)
      | _ \<Rightarrow> Inl MultipleObjectsReturned)"

definition User_save :: "store \<Rightarrow> user \<Rightarrow> store" where
  "User_save s u =
     (if user_id u \<in> set (map user_id (users s))
      then s\<lparr>users := map (\<lambda>r. if user_id r = user_id u then u else r) (users s)\<rparr>
      else s\<lparr>users := users s @ [u]\<rparr>)"

text \<open>
  \<open>user.set_password(raw)\<close>: the stored string stands for the hash of the raw password.
\<close>

definition set_password :: "user \<Rightarrow> string \<Rightarrow> user" where
  "set_password u raw = u\<lparr>password := raw\<rparr>"

text \<open>
  Modelled from the spec: create and update of a Listing through \<open>ListingSerializer\<close>, as
  section 4.1 describes them: the field set is validated first, a failure lists the
  violated fields and writes nothing, and only a valid field set is written. The
  dispatch is the framework's; \<open>builtin\<close> stands for its own per-field checks and gives
  their errors by field name. The hook \<open>validate_price_per_night\<close> runs on the price
  when the built-in checks of that field passed.
\<close>

record listing_fields =
  lf_host :: nat
  lf_name :: string
  lf_description :: string
  lf_location :: string
  lf_price_per_night :: decimal

definition ListingSerializer_errors ::
  "(listing_fields \<Rightarrow> (string \<times> string) list) \<Rightarrow> listing_fields \<Rightarrow> (string \<times> string) list" where
  "ListingSerializer_errors builtin f =
     (if ''price_per_night'' \<in> set (map fst (builtin f)) then builtin f
      else case validate_price_per_night (lf_price_per_night f) of
             Inl (ValidationError m) \<Rightarrow> builtin f @ [(''price_per_night'', m)]
           | _ \<Rightarrow> builtin f)"

definition ListingSerializer_create ::
  "(listing_fields \<Rightarrow> (string \<times> string) list) \<Rightarrow> listing_fields \<Rightarrow> store
     \<Rightarrow> ((string \<times> string) list + listing) \<times> store" where
  "ListingSerializer_create builtin f s =
     (let errs = ListingSerializer_errors builtin f in
      if errs \<noteq> [] then (Inl errs, s)
      else
        let (row, s') = Listing_objects_create s (lf_host f) (lf_name f) (lf_description f)
                          (lf_location f) (lf_price_per_night f)
        in (Inr row, s'))"

definition ListingSerializer_update ::
  "(listing_fields \<Rightarrow> (string \<times> string) list) \<Rightarrow> listing \<Rightarrow> listing_fields \<Rightarrow> store
     \<Rightarrow> ((string \<times> string) list + listing) \<times> store" where
  "ListingSerializer_update builtin inst f s =
     (let errs = ListingSerializer_errors builtin f in
      if errs \<noteq> [] then (Inl errs, s)
      else
        let row = inst\<lparr>host := lf_host f, name := lf_name f, description := lf_description f,
                       location := lf_location f, price_per_night := lf_price_per_night f\<rparr>
        in (Inr row,
            s\<lparr>listings := map (\<lambda>r. if property_id r = property_id row then row else r)
                              (listings s)\<rparr>))"

text \<open>
  Modelled from the spec: create and update of a Booking through \<open>BookingSerializer\<close>.
  The dispatch is the framework's (sections 4.1 and 9): after its own per-field checks
  (\<open>builtin\<close>, errors by field name) it calls, of the methods the serializer defines, the
  one named \<open>validate_f\<close> for each declared field \<open>f\<close> and the one named \<open>validate\<close>,
  and no other. A valid field set is written as \<open>Booking.objects.create\<close> writes it (on
  update, over the row of the instance): no validator of the model runs, since
  \<open>Booking.clean\<close> is reached only through \<open>full_clean\<close>, which nothing in the
  repository calls. \<open>Meta.fields\<close> and the name of the serializer's one hook,
  \<open>validate_booking\<close>, are the source's; both dates are required fields, so a field set
  that passed the built-in checks carries them.
\<close>

definition BookingSerializer_fields :: "string list" where
  "BookingSerializer_fields =
     [''booking_id'', ''property'', ''property_id'', ''user'', ''user_id'', ''start_date'',
      ''end_date'', ''total_price'', ''status'', ''created_at'']"

definition hook_is_dispatched :: "string list \<Rightarrow> string \<Rightarrow> bool" where
  "hook_is_dispatched declared h =
     (h = ''validate'' \<or> h \<in> set (map (\<lambda>f. ''validate_'' @ f) declared))"

record booking_fields =
  bf_property :: nat
  bf_user :: nat
  bf_start_date :: date
  bf_end_date :: date
  bf_total_price :: decimal
  bf_status :: string

definition booking_dates :: "booking_fields \<Rightarrow> (string \<rightharpoonup> date)" where
  "booking_dates f = [''start_date'' \<mapsto> bf_start_date f, ''end_date'' \<mapsto> bf_end_date f]"

definition BookingSerializer_errors ::
  "(booking_fields \<Rightarrow> (string \<times> string) list) \<Rightarrow> booking option \<Rightarrow> date \<Rightarrow> booking_fields
     \<Rightarrow> (string \<times> string) list" where
  "BookingSerializer_errors builtin inst today f =
     (if builtin f \<noteq> [] then builtin f
      else if hook_is_dispatched BookingSerializer_fields ''validate_booking'' then
        (case validate_booking inst today (booking_dates f) of
           Inl (ValidationError m) \<Rightarrow> [(''non_field_errors'', m)]
         | _ \<Rightarrow> [])
      else [])"

definition BookingSerializer_create ::
  "(booking_fields \<Rightarrow> (string \<times> string) list) \<Rightarrow> date \<Rightarrow> booking_fields \<Rightarrow> store
     \<Rightarrow> ((string \<times> string) list + booking) \<times> store" where
  "BookingSerializer_create builtin today f s =
     (let errs = BookingSerializer_errors builtin None today f in
      if errs \<noteq> [] then (Inl errs, s)
      else
        let (row, s') = Booking_objects_create s (bf_property f) (bf_user f) (bf_start_date f)
                          (bf_end_date f) (bf_total_price f) (bf_status f)
        in (Inr row, s'))"

definition BookingSerializer_update ::
  "(booking_fields \<Rightarrow> (string \<times> string) list) \<Rightarrow> booking \<Rightarrow> date \<Rightarrow> booking_fields \<Rightarrow> store
     \<Rightarrow> ((string \<times> string) list + booking) \<times> store" where
  "BookingSerializer_update builtin inst today f s =
     (let errs = BookingSerializer_errors builtin (Some inst) today f in
      if errs \<noteq> [] then (Inl errs, s)
      else
        let row = inst\<lparr>booking_property := bf_property f, booking_user := bf_user f,
                       start_date := Some (bf_start_date f), end_date := Some (bf_end_date f),
                       total_price := bf_total_price f, status := bf_status f\<rparr>
        in (Inr row,
            s\<lparr>bookings := map (\<lambda>r. if booking_id r = booking_id row then row else r)
                              (bookings s)\<rparr>))"

section \<open>Library values the seeder uses\<close>

text \<open>
  \<open>Decimal * int\<close>: the integer becomes a Decimal of exponent 0, the coefficients are
  multiplied, the exponents added, and the result is rounded to the context's 28
  significant digits, half to even (the default context). The exponent limits of the
  context, far outside every value here, are left out.
\<close>

fun ndigits :: "nat \<Rightarrow> nat" where
  "ndigits n = (if n < 10 then 1 else Suc (ndigits (n div 10)))"

declare ndigits.simps [simp del]

definition dec_fix :: "decimal \<Rightarrow> decimal" where
  "dec_fix d =
     (if dec_int d < 10 ^ 28 then d
      else
        let k = ndigits (dec_int d) - 28;
            q = dec_int d div 10 ^ k;
            r = dec_int d mod 10 ^ k;
            half = 5 * 10 ^ (k - 1);
            q' = (if half < r \<or> (r = half \<and> odd q) then Suc q else q)
        in if q' < 10 ^ 28 then d\<lparr>dec_int := q', dec_exp := dec_exp d + int k\<rparr>
           else d\<lparr>dec_int := q' div 10, dec_exp := dec_exp d + int k + 1\<rparr>)"

definition dec_mul_int :: "decimal \<Rightarrow> int \<Rightarrow> decimal" where
  "dec_mul_int d n =
     dec_fix \<lparr>dec_sign = (dec_sign d \<noteq> (n < 0)), dec_int = dec_int d * nat \<bar>n\<bar>,
              dec_exp = dec_exp d\<rparr>"

text \<open>\<open>Decimal('250.00')\<close> is \<open>Decimal2 25000\<close>: two fractional digits.\<close>

definition Decimal2 :: "nat \<Rightarrow> decimal" where
  "Decimal2 c = \<lparr>dec_sign = False, dec_int = c, dec_exp = - 2\<rparr>"

text \<open>\<open>sub in s\<close> for two strings.\<close>

definition str_contains :: "string \<Rightarrow> string \<Rightarrow> bool" where
  "str_contains sub s = sublist sub s"

text \<open>
  The module \<open>random\<close>. The random source is a sequence of raw draws \<open>rnd\<close> read at a
  position that every call advances; each function can return every value the library
  function can return, for a suitable sequence. \<open>choice\<close> raises on an empty sequence
  and \<open>sample\<close> on a sample larger than the population; \<open>randint\<close> is only called with
  literal bounds \<open>a \<le> b\<close>.
\<close>

type_synonym rng = "nat \<Rightarrow> nat"

definition random_choice :: "rng \<Rightarrow> nat \<Rightarrow> 'a list \<Rightarrow> error + ('a \<times> nat)" where
  "random_choice rnd p xs =
     (if xs = [] then Inl IndexError else Inr (xs ! (rnd p mod length xs), Suc p))"

definition random_randint :: "rng \<Rightarrow> nat \<Rightarrow> int \<Rightarrow> int \<Rightarrow> int \<times> nat" where
  "random_randint rnd p a b = (a + int (rnd p mod nat (b - a + 1)), Suc p)"

fun sample_loop :: "rng \<Rightarrow> nat \<Rightarrow> 'a list \<Rightarrow> nat \<Rightarrow> 'a list \<times> nat" where
  "sample_loop rnd p xs 0 = ([], p)"
| "sample_loop rnd p xs (Suc k) =
     (let i = rnd p mod length xs;
          (ys, p') = sample_loop rnd (Suc p) (take i xs @ drop (Suc i) xs) k
      in (xs ! i # ys, p'))"

definition random_sample :: "rng \<Rightarrow> nat \<Rightarrow> 'a list \<Rightarrow> nat \<Rightarrow> error + ('a list \<times> nat)" where
  "random_sample rnd p xs k =
     (if length xs < k then Inl ValueError else Inr (sample_loop rnd p xs k))"

section \<open>listings/management/commands/seed.py\<close>

record user_data =
  ud_username :: string
  ud_email :: string
  ud_first_name :: string
  ud_last_name :: string

definition users_data :: "user_data list" where
  "users_data =
     [
      \<lparr>ud_username = ''john_host'', ud_email = ''john@example.com'',
       ud_first_name = ''John'', ud_last_name = ''Doe''\<rparr>,
      \<lparr>ud_username = ''jane_host'', ud_email = ''jane@example.com'',
       ud_first_name = ''Jane'', ud_last_name = ''Smith''\<rparr>,
      \<lparr>ud_username = ''mike_guest'', ud_email = ''mike@example.com'',
       ud_first_name = ''Mike'', ud_last_name = ''Johnson''\<rparr>,
      \<lparr>ud_username = ''sarah_guest'', ud_email = ''sarah@example.com'',
       ud_first_name = ''Sarah'', ud_last_name = ''Williams''\<rparr>,
      \<lparr>ud_username = ''david_host'', ud_email = ''david@example.com'',
       ud_first_name = ''David'', ud_last_name = ''Brown''\<rparr>,
      \<lparr>ud_username = ''emma_guest'', ud_email = ''emma@example.com'',
       ud_first_name = ''Emma'', ud_last_name = ''Davis''\<rparr>
     ]"

text \<open>One turn of the loop of \<open>create_users\<close>, then the loop.\<close>

definition create_user :: "store \<Rightarrow> user_data \<Rightarrow> error + (user \<times> store)" where
  "create_user s d =
     (case User_objects_get_or_create s (ud_username d) (ud_email d) (ud_first_name d)
             (ud_last_name d) of
        Inl e \<Rightarrow> Inl e
      | Inr ((u, created), s1) \<Rightarrow>
          if created then
            (let u' = set_password u ''password123'' in Inr (u', User_save s1 u'))
          else Inr (u, s1))"

fun create_users_loop :: "user_data list \<Rightarrow> store \<Rightarrow> user list \<Rightarrow> error + (user list \<times> store)" where
  "create_users_loop [] s acc = Inr (acc, s)"
| "create_users_loop (d # ds) s acc =
     (case create_user s d of
        Inl e \<Rightarrow> Inl e
      | Inr (u, s') \<Rightarrow> create_users_loop ds s' (acc @ [u]))"

definition create_users :: "store \<Rightarrow> error + (user list \<times> store)" where
  "create_users s = create_users_loop users_data s []"

record listing_data =
  ld_name :: string
  ld_description :: string
  ld_location :: string
  ld_price_per_night :: decimal

definition listings_data :: "listing_data list" where
  "listings_data =
     [
      \<lparr>ld_name = ''Cozy Beach House'',
       ld_description = ''Beautiful beachfront property with stunning ocean views. Perfect for families and couples seeking a relaxing getaway.'',
       ld_location = ''Malibu, California'',
       ld_price_per_night = Decimal2 25000\<rparr>,
      \<lparr>ld_name = ''Mountain Retreat Cabin'',
       ld_description = ''Secluded cabin in the mountains with hiking trails nearby. Ideal for nature lovers and adventure seekers.'',
       ld_location = ''Aspen, Colorado'',
       ld_price_per_night = Decimal2 18000\<rparr>,
      \<lparr>ld_name = ''Downtown Luxury Apartment'',
       ld_description = ''Modern apartment in the heart of the city with all amenities. Walking distance to restaurants, shops, and entertainment.'',
       ld_location = ''New York, NY'',
       ld_price_per_night = Decimal2 30000\<rparr>,
      \<lparr>ld_name = ''Countryside Villa'',
       ld_description = ''Spacious villa surrounded by vineyards and rolling hills. Features a private pool and outdoor dining area.'',
       ld_location = ''Tuscany, Italy'',
       ld_price_per_night = Decimal2 45000\<rparr>,
      \<lparr>ld_name = ''Tropical Paradise Bungalow'',
       ld_description = ''Charming bungalow steps from pristine beaches. Includes hammocks, outdoor shower, and tropical garden.'',
       ld_location = ''Bali, Indonesia'',
       ld_price_per_night = Decimal2 12000\<rparr>,
      \<lparr>ld_name = ''Historic City Loft'',
       ld_description = ''Renovated loft in a historic building with exposed brick and high ceilings. Perfect for urban explorers.'',
       ld_location = ''Boston, Massachusetts'',
       ld_price_per_night = Decimal2 22000\<rparr>,
      \<lparr>ld_name = ''Lakefront Cottage'',
       ld_description = ''Peaceful cottage on a private lake with dock and kayaks included. Great for fishing and water activities.'',
       ld_location = ''Lake Tahoe, Nevada'',
       ld_price_per_night = Decimal2 19500\<rparr>,
      \<lparr>ld_name = ''Desert Oasis Villa'',
       ld_description = ''Stunning modern villa with infinity pool overlooking desert landscape. Solar-powered and eco-friendly.'',
       ld_location = ''Scottsdale, Arizona'',
       ld_price_per_night = Decimal2 35000\<rparr>
     ]"

text \<open>
  \<open>create_listings\<close>: \<open>hosts[i % len(hosts)]\<close> divides by zero when no user is a host.
\<close>

fun create_listings_loop ::
  "user list \<Rightarrow> (nat \<times> listing_data) list \<Rightarrow> store \<Rightarrow> listing list
     \<Rightarrow> error + (listing list \<times> store)" where
  "create_listings_loop hosts [] s acc = Inr (acc, s)"
| "create_listings_loop hosts ((i, d) # ds) s acc =
     (if hosts = [] then Inl ZeroDivisionError
      else
        let (row, s') = Listing_objects_create s (user_id (hosts ! (i mod length hosts)))
                          (ld_name d) (ld_description d) (ld_location d)
                          (ld_price_per_night d)
        in create_listings_loop hosts ds s' (acc @ [row]))"

definition create_listings :: "user list \<Rightarrow> store \<Rightarrow> error + (listing list \<times> store)" where
  "create_listings us s =
     create_listings_loop (filter (\<lambda>u. str_contains ''host'' (username u)) us)
       (enumerate 0 listings_data) s []"

definition statuses :: "string list" where
  "statuses = [''pending'', ''confirmed'', ''confirmed'', ''confirmed'', ''canceled'']"

text \<open>
  \<open>create_bookings\<close>: \<open>n\<close> counts the turns of \<open>for i in range(15)\<close> still to run,
  \<open>today\<close> is \<open>datetime.now().date()\<close>, and the draws are made in the order of the source.
\<close>

fun create_bookings_loop ::
  "rng \<Rightarrow> date \<Rightarrow> listing list \<Rightarrow> user list \<Rightarrow> nat \<Rightarrow> nat \<Rightarrow> store \<Rightarrow> booking list
     \<Rightarrow> error + (booking list \<times> store \<times> nat)" where
  "create_bookings_loop rnd today ls guests 0 p s acc = Inr (acc, s, p)"
| "create_bookings_loop rnd today ls guests (Suc n) p s acc =
     (case random_choice rnd p ls of
        Inl e \<Rightarrow> Inl e
      | Inr (l, p1) \<Rightarrow>
          (case random_choice rnd p1 guests of
             Inl e \<Rightarrow> Inl e
           | Inr (guest, p2) \<Rightarrow>
               let (start_offset, p3) = random_randint rnd p2 (- 30) 60;
                   (duration, p4) = random_randint rnd p3 2 14;
                   sd = today + start_offset;
                   ed = sd + duration;
                   tp = dec_mul_int (price_per_night l) duration
               in (case random_choice rnd p4 statuses of
                     Inl e \<Rightarrow> Inl e
                   | Inr (st, p5) \<Rightarrow>
                       let (row, s') = Booking_objects_create s (property_id l) (user_id guest)
                                         sd ed tp st
                       in create_bookings_loop rnd today ls guests n p5 s' (acc @ [row]))))"

definition create_bookings ::
  "rng \<Rightarrow> date \<Rightarrow> listing list \<Rightarrow> user list \<Rightarrow> nat \<Rightarrow> store
     \<Rightarrow> error + (booking list \<times> store \<times> nat)" where
  "create_bookings rnd today ls us p s =
     create_bookings_loop rnd today ls (filter (\<lambda>u. str_contains ''guest'' (username u)) us)
       15 p s []"

definition review_comments :: "string list" where
  "review_comments =
     [
      ''Amazing place! Highly recommended for anyone visiting the area.'',
      ''Great location and very clean. The host was very responsive.'',
      ''Beautiful property with stunning views. Would definitely stay again.'',
      ''Good value for money. Some minor issues but overall satisfied.'',
      ''Exactly as described. Perfect for our family vacation.'',
      ''Outstanding experience. The property exceeded our expectations.'',
      ''Nice place but could use some updates. Still enjoyable though.'',
      ''Wonderful stay! The amenities were top-notch.'',
      ''Very comfortable and well-maintained. Great communication with host.'',
      ''Decent property but not quite what we expected from the photos.''
     ]"

text \<open>\<open>create_reviews\<close>: the loop over the sampled guests of one listing.\<close>

fun create_reviews_inner ::
  "rng \<Rightarrow> listing \<Rightarrow> user list \<Rightarrow> nat \<Rightarrow> store \<Rightarrow> review list
     \<Rightarrow> error + (review list \<times> store \<times> nat)" where
  "create_reviews_inner rnd l [] p s acc = Inr (acc, s, p)"
| "create_reviews_inner rnd l (guest # gs) p s acc =
     (let (rt, p1) = random_randint rnd p 3 5 in
      case random_choice rnd p1 review_comments of
        Inl e \<Rightarrow> Inl e
      | Inr (cm, p2) \<Rightarrow>
          (case Review_objects_create s (property_id l) (user_id guest) rt cm of
             (Inl e, _) \<Rightarrow> Inl e
           | (Inr row, s') \<Rightarrow> create_reviews_inner rnd l gs p2 s' (acc @ [row])))"

text \<open>The loop over the sampled listings.\<close>

fun create_reviews_outer ::
  "rng \<Rightarrow> listing list \<Rightarrow> user list \<Rightarrow> nat \<Rightarrow> store \<Rightarrow> review list
     \<Rightarrow> error + (review list \<times> store \<times> nat)" where
  "create_reviews_outer rnd [] guests p s acc = Inr (acc, s, p)"
| "create_reviews_outer rnd (l # ls) guests p s acc =
     (let (num_reviews, p1) = random_randint rnd p 1 3 in
      case random_sample rnd p1 guests (min (nat num_reviews) (length guests)) of
        Inl e \<Rightarrow> Inl e
      | Inr (review_guests, p2) \<Rightarrow>
          (case create_reviews_inner rnd l review_guests p2 s acc of
             Inl e \<Rightarrow> Inl e
           | Inr (acc', s', p3) \<Rightarrow> create_reviews_outer rnd ls guests p3 s' acc'))"

definition create_reviews ::
  "rng \<Rightarrow> listing list \<Rightarrow> user list \<Rightarrow> nat \<Rightarrow> store \<Rightarrow> error + (review list \<times> store \<times> nat)" where
  "create_reviews rnd ls us p s =
     (case random_sample rnd p ls (min 6 (length ls)) of
        Inl e \<Rightarrow> Inl e
      | Inr (chosen, p1) \<Rightarrow>
          create_reviews_outer rnd chosen
            (filter (\<lambda>u. str_contains ''guest'' (username u)) us) p1 s [])"

text \<open>
  \<open>handle\<close>. The result keeps the four lists \<open>users\<close>, \<open>listings\<close>, \<open>bookings\<close> and
  \<open>reviews\<close> of the source (whose lengths it prints) beside the store it leaves.
\<close>

record seeded =
  seeded_users :: "user list"
  seeded_listings :: "listing list"
  seeded_bookings :: "booking list"
  seeded_reviews :: "review list"
  seeded_store :: store

definition clear_data :: "store \<Rightarrow> store" where
  "clear_data s =
     User_objects_filter_not_superuser_delete
       (Listing_objects_all_delete (Booking_objects_all_delete (Review_objects_all_delete s)))"

definition handle :: "bool \<Rightarrow> rng \<Rightarrow> date \<Rightarrow> store \<Rightarrow> error + seeded" where
  "handle clear rnd today s =
     (let s0 = (if clear then clear_data s else s) in
      case create_users s0 of
        Inl e \<Rightarrow> Inl e
      | Inr (us, s1) \<Rightarrow>
          (case create_listings us s1 of
             Inl e \<Rightarrow> Inl e
           | Inr (ls, s2) \<Rightarrow>
               (case create_bookings rnd today ls us 0 s2 of
                  Inl e \<Rightarrow> Inl e
                | Inr (bs, s3, p) \<Rightarrow>
                    (case create_reviews rnd ls us p s3 of
                       Inl e \<Rightarrow> Inl e
                     | Inr (rs, s4, p') \<Rightarrow>
                         Inr \<lparr>seeded_users = us, seeded_listings = ls, seeded_bookings = bs,
                              seeded_reviews = rs, seeded_store = s4\<rparr>))))"

section \<open>Predicates of the statements about the seeder\<close>

text \<open>
  What a store is expected to satisfy before a seeding run: usernames and user keys are
  unique (as the framework's User table has them), and every key in use, and every
  Listing key a Review refers to, has been handed out already.
\<close>

definition store_ok :: "store \<Rightarrow> bool" where
  "store_ok s =
     (distinct (map username (users s)) \<and> distinct (map user_id (users s))
      \<and> list_all (\<lambda>u. user_id u < next_id s) (users s)
      \<and> list_all (\<lambda>r. review_property r < next_id s) (reviews s))"

text \<open>
  A Booking as one turn of \<open>create_bookings\<close> builds it from a listing and a guest of
  its arguments: offset \<open>k\<close>, duration \<open>d\<close>.
\<close>

definition seeded_booking :: "date \<Rightarrow> listing list \<Rightarrow> user list \<Rightarrow> booking \<Rightarrow> bool" where
  "seeded_booking today ls guests b =
     (\<exists>l \<in> set ls. \<exists>g \<in> set guests. \<exists>k d.
        - 30 \<le> k \<and> k \<le> 60 \<and> 2 \<le> d \<and> d \<le> 14
        \<and> start_date b = Some (today + k) \<and> end_date b = Some (today + k + d)
        \<and> total_price b = dec_mul_int (price_per_night l) d
        \<and> booking_property b = property_id l \<and> booking_user b = user_id g
        \<and> status b \<in> set statuses)"

section \<open>The validators\<close>

lemma dec_scale_pos: "0 < (if 0 \<le> e then 10 ^ nat e else 1 / 10 ^ nat (- e) :: rat)"
  by simp

lemma dec_le_zero_val: "dec_le_zero d \<longleftrightarrow> dec_val d \<le> 0"
proof -
  let ?k = "(if 0 \<le> dec_exp d then 10 ^ nat (dec_exp d) else 1 / 10 ^ nat (- dec_exp d) :: rat)"
  have k: "0 < ?k" by (rule dec_scale_pos)
  show ?thesis
  proof (cases "dec_sign d")
    case True
    have "dec_val d = - (of_nat (dec_int d) * ?k)" using True by (simp add: dec_val_def)
    moreover have "0 \<le> of_nat (dec_int d) * ?k" using k by simp
    ultimately show ?thesis using True by (simp add: dec_le_zero_def)
  next
    case False
    have v: "dec_val d = of_nat (dec_int d) * ?k" using False by (simp add: dec_val_def)
    have "(of_nat (dec_int d) * ?k \<le> 0) = (dec_int d = 0)"
      using k by (simp add: mult_le_0_iff not_less)
    then show ?thesis using False v by (simp add: dec_le_zero_def)
  qed
qed

lemma dec_gt_zero_val: "dec_gt_zero d \<longleftrightarrow> 0 < dec_val d"
  using dec_le_zero_val [of d] by (auto simp: dec_gt_zero_def dec_le_zero_def)

lemma validate_booking_not_dispatched:
  "\<not> hook_is_dispatched BookingSerializer_fields ''validate_booking''"
  by (simp add: hook_is_dispatched_def BookingSerializer_fields_def)

lemma BookingSerializer_errors_builtin:
  "BookingSerializer_errors builtin inst today f = builtin f"
  by (simp add: BookingSerializer_errors_def validate_booking_not_dispatched)

lemma validators_on_a_pair:
  "(e \<le> s \<longrightarrow>
      Booking_clean (b\<lparr>start_date := Some s, end_date := Some e\<rparr>)
        = Inl (ValidationError ''End date must be after start date.'')
      \<and> validate_booking inst today (data(''start_date'' \<mapsto> s, ''end_date'' \<mapsto> e))
        = Inl (ValidationError ''End date must be after start date.''))
   \<and> (s < e \<longrightarrow> Booking_clean (b\<lparr>start_date := Some s, end_date := Some e\<rparr>) = Inr ())
   \<and> (\<forall>d. validate_booking inst today (data(''start_date'' \<mapsto> s, ''end_date'' \<mapsto> e)) = Inr d
          \<longrightarrow> s < e)"
  by (auto simp: Booking_clean_def validate_booking_def split: if_splits)

lemma validate_booking_on_both_dates:
  "data ''start_date'' = Some s \<Longrightarrow> data ''end_date'' = Some e \<Longrightarrow>
   (s < today \<longrightarrow>
      validate_booking None today data
        = Inl (ValidationError (if e \<le> s then ''End date must be after start date.''
                                else ''Start date cannot be in the past.'')))
   \<and> (s < e \<longrightarrow> validate_booking (Some b) today data = Inr data)"
  by (simp add: validate_booking_def)

text \<open>
  C1. The claim fails on the code: neither check is run by a write. For every field set
  that passes the framework's own checks and has its end date equal to or before its
  start date, create and update through \<open>BookingSerializer\<close> accept it and write the row,
  and so does \<open>Booking.objects.create\<close>, although \<open>Booking.clean\<close> and
  \<open>validate_booking\<close> both raise the date-order error on that very pair: the hook is
  named \<open>validate_booking\<close>, a name the dispatch does not call, and \<open>clean\<close> is never
  called.
\<close>

theorem booking_write_accepts_end_not_after_start:
  assumes "builtin f = []" and "bf_end_date f \<le> bf_start_date f"
  shows "(\<exists>row. BookingSerializer_create builtin today f s
                  = (Inr row, s\<lparr>bookings := bookings s @ [row], next_id := Suc (next_id s)\<rparr>)
              \<and> start_date row = Some (bf_start_date f)
              \<and> end_date row = Some (bf_end_date f)
              \<and> Booking_clean row
                  = Inl (ValidationError ''End date must be after start date.''))
       \<and> (\<exists>row. BookingSerializer_update builtin inst today f s
                  = (Inr row,
                     s\<lparr>bookings := map (\<lambda>r. if booking_id r = booking_id inst then row else r)
                                       (bookings s)\<rparr>)
              \<and> start_date row = Some (bf_start_date f)
              \<and> end_date row = Some (bf_end_date f)
              \<and> Booking_clean row
                  = Inl (ValidationError ''End date must be after start date.''))
       \<and> Booking_clean
            (fst (Booking_objects_create s (bf_property f) (bf_user f) (bf_start_date f)
                    (bf_end_date f) (bf_total_price f) (bf_status f)))
            = Inl (ValidationError ''End date must be after start date.'')
       \<and> validate_booking None today (booking_dates f)
            = Inl (ValidationError ''End date must be after start date.'')
       \<and> validate_booking (Some inst) today (booking_dates f)
            = Inl (ValidationError ''End date must be after start date.'')"
proof (intro conjI)
  let ?new = "\<lparr>booking_id = next_id s, booking_property = bf_property f,
               booking_user = bf_user f, start_date = Some (bf_start_date f),
               end_date = Some (bf_end_date f), total_price = bf_total_price f,
               status = bf_status f\<rparr>"
  let ?upd = "inst\<lparr>booking_property := bf_property f, booking_user := bf_user f,
                   start_date := Some (bf_start_date f), end_date := Some (bf_end_date f),
                   total_price := bf_total_price f, status := bf_status f\<rparr>"
  show "\<exists>row. BookingSerializer_create builtin today f s
                  = (Inr row, s\<lparr>bookings := bookings s @ [row], next_id := Suc (next_id s)\<rparr>)
              \<and> start_date row = Some (bf_start_date f)
              \<and> end_date row = Some (bf_end_date f)
              \<and> Booking_clean row
                  = Inl (ValidationError ''End date must be after start date.'')"
    using assms
    by (intro exI [of _ ?new])
      (simp add: BookingSerializer_create_def BookingSerializer_errors_builtin
        Booking_objects_create_def Booking_clean_def Let_def)
  show "\<exists>row. BookingSerializer_update builtin inst today f s
                  = (Inr row,
                     s\<lparr>bookings := map (\<lambda>r. if booking_id r = booking_id inst then row else r)
                                       (bookings s)\<rparr>)
              \<and> start_date row = Some (bf_start_date f)
              \<and> end_date row = Some (bf_end_date f)
              \<and> Booking_clean row
                  = Inl (ValidationError ''End date must be after start date.'')"
    using assms
    by (intro exI [of _ ?upd])
      (simp add: BookingSerializer_update_def BookingSerializer_errors_builtin
        Booking_clean_def Let_def)
  show "Booking_clean
            (fst (Booking_objects_create s (bf_property f) (bf_user f) (bf_start_date f)
                    (bf_end_date f) (bf_total_price f) (bf_status f)))
            = Inl (ValidationError ''End date must be after start date.'')"
    using assms(2) by (simp add: Booking_objects_create_def Booking_clean_def Let_def)
  show "validate_booking None today (booking_dates f)
            = Inl (ValidationError ''End date must be after start date.'')"
    using assms(2) by (simp add: validate_booking_def booking_dates_def)
  show "validate_booking (Some inst) today (booking_dates f)
            = Inl (ValidationError ''End date must be after start date.'')"
    using assms(2) by (simp add: validate_booking_def booking_dates_def)
qed

theorem booking_write_accepts_end_not_after_start_witness:
  "\<exists>row. BookingSerializer_create (\<lambda>f. []) 0
            \<lparr>bf_property = 1, bf_user = 2, bf_start_date = 10, bf_end_date = 10,
             bf_total_price = Decimal2 50000, bf_status = ''pending''\<rparr> empty_store
          = (Inr row, \<lparr>users = [], listings = [], bookings = [row], reviews = [], next_id = 1\<rparr>)
     \<and> start_date row = Some 10 \<and> end_date row = Some 10
     \<and> Booking_clean row = Inl (ValidationError ''End date must be after start date.'')"
  using booking_write_accepts_end_not_after_start
    [of "\<lambda>f. []" "\<lparr>bf_property = 1, bf_user = 2, bf_start_date = 10, bf_end_date = 10,
             bf_total_price = Decimal2 50000, bf_status = ''pending''\<rparr>" 0 empty_store]
  by (simp add: empty_store_def)

text \<open>
  C10. \<open>Booking.clean\<close> raises exactly when both dates are set and the end is not after
  the start; with either date missing it returns without error.
\<close>

theorem booking_clean_raises_iff:
  "((\<exists>err. Booking_clean b = Inl err)
      \<longleftrightarrow> (\<exists>s e. start_date b = Some s \<and> end_date b = Some e \<and> e \<le> s))
   \<and> (start_date b = None \<or> end_date b = None \<longrightarrow> Booking_clean b = Inr ())"
  by (auto simp: Booking_clean_def split: option.splits if_splits)

theorem booking_clean_raises_iff_witness:
  "Booking_clean \<lparr>booking_id = 1, booking_property = 2, booking_user = 3,
                   start_date = None, end_date = Some 5,
                   total_price = Decimal2 50000, status = ''pending''\<rparr> = Inr ()
   \<and> (\<exists>err. Booking_clean \<lparr>booking_id = 1, booking_property = 2, booking_user = 3,
                   start_date = Some 7, end_date = Some 5,
                   total_price = Decimal2 50000, status = ''pending''\<rparr> = Inl err)"
  using booking_clean_raises_iff
    [of "\<lparr>booking_id = 1, booking_property = 2, booking_user = 3,
                   start_date = None, end_date = Some 5,
                   total_price = Decimal2 50000, status = ''pending''\<rparr>"]
    booking_clean_raises_iff
    [of "\<lparr>booking_id = 1, booking_property = 2, booking_user = 3,
                   start_date = Some 7, end_date = Some 5,
                   total_price = Decimal2 50000, status = ''pending''\<rparr>"]
  by simp

text \<open>
  C2. The claim fails on the code: for every field set of a new Booking that passes the
  framework's own checks and has its start date before today, create through
  \<open>BookingSerializer\<close> accepts it and writes the row, although \<open>validate_booking\<close>
  raises a validation error on those data when there is no instance. The hook that holds
  the rule is not among the names the dispatch calls, so the rule runs for no write, new
  or not.
\<close>

theorem new_booking_past_start_accepted:
  assumes "builtin f = []" and "bf_start_date f < today"
  shows "(\<exists>row. BookingSerializer_create builtin today f s
                  = (Inr row, s\<lparr>bookings := bookings s @ [row], next_id := Suc (next_id s)\<rparr>)
              \<and> start_date row = Some (bf_start_date f))
       \<and> validate_booking None today (booking_dates f)
            = Inl (ValidationError (if bf_end_date f \<le> bf_start_date f
                                    then ''End date must be after start date.''
                                    else ''Start date cannot be in the past.''))
       \<and> \<not> hook_is_dispatched BookingSerializer_fields ''validate_booking''"
proof (intro conjI)
  let ?new = "\<lparr>booking_id = next_id s, booking_property = bf_property f,
               booking_user = bf_user f, start_date = Some (bf_start_date f),
               end_date = Some (bf_end_date f), total_price = bf_total_price f,
               status = bf_status f\<rparr>"
  show "\<exists>row. BookingSerializer_create builtin today f s
                  = (Inr row, s\<lparr>bookings := bookings s @ [row], next_id := Suc (next_id s)\<rparr>)
              \<and> start_date row = Some (bf_start_date f)"
    using assms(1)
    by (intro exI [of _ ?new])
      (simp add: BookingSerializer_create_def BookingSerializer_errors_builtin
        Booking_objects_create_def Let_def)
  show "validate_booking None today (booking_dates f)
            = Inl (ValidationError (if bf_end_date f \<le> bf_start_date f
                                    then ''End date must be after start date.''
                                    else ''Start date cannot be in the past.''))"
    using validate_booking_on_both_dates [of "booking_dates f" "bf_start_date f" "bf_end_date f"
        today] assms(2)
    by (simp add: booking_dates_def)
  show "\<not> hook_is_dispatched BookingSerializer_fields ''validate_booking''"
    by (rule validate_booking_not_dispatched)
qed

theorem new_booking_past_start_accepted_witness:
  "\<exists>row. BookingSerializer_create (\<lambda>f. []) 100
            \<lparr>bf_property = 1, bf_user = 2, bf_start_date = 50, bf_end_date = 60,
             bf_total_price = Decimal2 50000, bf_status = ''pending''\<rparr> empty_store
          = (Inr row, \<lparr>users = [], listings = [], bookings = [row], reviews = [], next_id = 1\<rparr>)
     \<and> start_date row = Some 50
     \<and> validate_booking None 100 [''start_date'' \<mapsto> 50, ''end_date'' \<mapsto> 60]
          = Inl (ValidationError ''Start date cannot be in the past.'')"
  using new_booking_past_start_accepted
    [of "\<lambda>f. []" "\<lparr>bf_property = 1, bf_user = 2, bf_start_date = 50, bf_end_date = 60,
             bf_total_price = Decimal2 50000, bf_status = ''pending''\<rparr>" 100 empty_store]
  by (simp add: empty_store_def booking_dates_def)

lemma serializer_errors_price:
  "dec_le_zero (lf_price_per_night f) \<Longrightarrow>
   ''price_per_night'' \<in> fst ` set (ListingSerializer_errors builtin f)"
  by (auto simp: ListingSerializer_errors_def validate_price_per_night_def)

lemma serializer_errors_empty:
  "ListingSerializer_errors builtin f = [] \<Longrightarrow> \<not> dec_le_zero (lf_price_per_night f)"
  using serializer_errors_price [of f builtin] by auto

text \<open>
  C3. A submitted price that is zero or negative is rejected by
  \<open>validate_price_per_night\<close>; create and update through the serializer then return the
  error under the field name \<open>price_per_night\<close> and leave the store as it was; and if
  every stored Listing has a positive price, so has every Listing stored after a create
  or an update.
\<close>

theorem listing_price_positive_enforced:
  "(dec_val (lf_price_per_night f) \<le> 0 \<longrightarrow>
      validate_price_per_night (lf_price_per_night f)
        = Inl (ValidationError ''Price per night must be greater than zero.'')
      \<and> (\<exists>errs. ListingSerializer_create builtin f s = (Inl errs, s)
                 \<and> ''price_per_night'' \<in> fst ` set errs)
      \<and> (\<exists>errs. ListingSerializer_update builtin inst f s = (Inl errs, s)
                 \<and> ''price_per_night'' \<in> fst ` set errs))
   \<and> ((\<forall>l \<in> set (listings s). 0 < dec_val (price_per_night l)) \<longrightarrow>
        (\<forall>l \<in> set (listings (snd (ListingSerializer_create builtin f s))).
            0 < dec_val (price_per_night l))
      \<and> (\<forall>l \<in> set (listings (snd (ListingSerializer_update builtin inst f s))).
            0 < dec_val (price_per_night l)))"
proof (intro conjI impI)
  assume "dec_val (lf_price_per_night f) \<le> 0"
  then have le: "dec_le_zero (lf_price_per_night f)" by (simp add: dec_le_zero_val)
  show "validate_price_per_night (lf_price_per_night f)
        = Inl (ValidationError ''Price per night must be greater than zero.'')"
    using le by (simp add: validate_price_per_night_def)
  have ne: "ListingSerializer_errors builtin f \<noteq> []"
    using serializer_errors_empty [of builtin f] le by blast
  show "\<exists>errs. ListingSerializer_create builtin f s = (Inl errs, s)
                 \<and> ''price_per_night'' \<in> fst ` set errs"
    using ne serializer_errors_price [OF le, of builtin]
    by (simp add: ListingSerializer_create_def Let_def)
  show "\<exists>errs. ListingSerializer_update builtin inst f s = (Inl errs, s)
                 \<and> ''price_per_night'' \<in> fst ` set errs"
    using ne serializer_errors_price [OF le, of builtin]
    by (simp add: ListingSerializer_update_def Let_def)
next
  assume inv: "\<forall>l \<in> set (listings s). 0 < dec_val (price_per_night l)"
  show "\<forall>l \<in> set (listings (snd (ListingSerializer_create builtin f s))).
            0 < dec_val (price_per_night l)"
  proof (cases "ListingSerializer_errors builtin f = []")
    case True
    then have "0 < dec_val (lf_price_per_night f)"
      using serializer_errors_empty [of builtin f] dec_gt_zero_val [of "lf_price_per_night f"]
      by (simp add: dec_gt_zero_def dec_le_zero_def)
    then show ?thesis using inv True
      by (auto simp: ListingSerializer_create_def Listing_objects_create_def Let_def)
  next
    case False
    then show ?thesis using inv by (simp add: ListingSerializer_create_def Let_def)
  qed
next
  assume inv: "\<forall>l \<in> set (listings s). 0 < dec_val (price_per_night l)"
  show "\<forall>l \<in> set (listings (snd (ListingSerializer_update builtin inst f s))).
            0 < dec_val (price_per_night l)"
  proof (cases "ListingSerializer_errors builtin f = []")
    case True
    then have "0 < dec_val (lf_price_per_night f)"
      using serializer_errors_empty [of builtin f] dec_gt_zero_val [of "lf_price_per_night f"]
      by (simp add: dec_gt_zero_def dec_le_zero_def)
    then show ?thesis using inv True
      by (auto simp: ListingSerializer_update_def Let_def)
  next
    case False
    then show ?thesis using inv by (simp add: ListingSerializer_update_def Let_def)
  qed
qed

theorem listing_price_positive_enforced_witness:
  "dec_val (Decimal2 0) \<le> 0
   \<and> validate_price_per_night (Decimal2 0)
       = Inl (ValidationError ''Price per night must be greater than zero.'')
   \<and> (\<exists>errs. ListingSerializer_create (\<lambda>f. [])
               \<lparr>lf_host = 0, lf_name = ''Cozy Beach House'', lf_description = ''Beach'',
                lf_location = ''Malibu, California'', lf_price_per_night = Decimal2 0\<rparr>
               empty_store = (Inl errs, empty_store)
             \<and> ''price_per_night'' \<in> fst ` set errs)"
proof -
  have z: "dec_val (Decimal2 0) \<le> 0" by (simp add: dec_val_def Decimal2_def)
  show ?thesis
    using z listing_price_positive_enforced
      [of "\<lparr>lf_host = 0, lf_name = ''Cozy Beach House'', lf_description = ''Beach'',
                lf_location = ''Malibu, California'', lf_price_per_night = Decimal2 0\<rparr>"
          "\<lambda>f. []" empty_store]
    by (simp add: empty_store_def)
qed

text \<open>
  C4. Inserting a Review keeps the (property, user) pairs of the stored Reviews pairwise
  distinct; an insert whose pair is already stored is rejected with an integrity error
  and leaves the store unchanged; an insert with a new pair appends exactly that row.
\<close>

theorem review_pair_unique:
  "(distinct (map review_pair (reviews s)) \<longrightarrow>
      distinct (map review_pair (reviews (snd (Review_objects_create s pr us rt cm)))))
   \<and> ((pr, us) \<in> review_pair ` set (reviews s) \<longrightarrow>
        Review_objects_create s pr us rt cm = (Inl IntegrityError, s))
   \<and> ((pr, us) \<notin> review_pair ` set (reviews s) \<longrightarrow>
        (\<exists>row. fst (Review_objects_create s pr us rt cm) = Inr row
             \<and> review_pair row = (pr, us)
             \<and> reviews (snd (Review_objects_create s pr us rt cm)) = reviews s @ [row]))"
  by (auto simp: Review_objects_create_def Let_def review_pair_def)

theorem review_pair_unique_witness:
  "\<exists>row s1. Review_objects_create empty_store 7 3 5 ''Wonderful stay!'' = (Inr row, s1)
     \<and> distinct (map review_pair (reviews s1))
     \<and> Review_objects_create s1 7 3 4 ''Again'' = (Inl IntegrityError, s1)"
proof -
  obtain row where r: "fst (Review_objects_create empty_store 7 3 5 ''Wonderful stay!'') = Inr row"
    and rp: "review_pair row = (7, 3)"
    and rs: "reviews (snd (Review_objects_create empty_store 7 3 5 ''Wonderful stay!'')) = reviews empty_store @ [row]"
    using review_pair_unique [of empty_store 7 3 5 "''Wonderful stay!''"]
    by (auto simp: empty_store_def)
  let ?s1 = "snd (Review_objects_create empty_store 7 3 5 ''Wonderful stay!'')"
  have d: "distinct (map review_pair (reviews ?s1))"
    using review_pair_unique [of empty_store 7 3 5 "''Wonderful stay!''"]
    by (simp add: empty_store_def)
  have "(7, 3) \<in> review_pair ` set (reviews ?s1)" using rs rp by (simp add: empty_store_def)
  then have "Review_objects_create ?s1 7 3 4 ''Again'' = (Inl IntegrityError, ?s1)"
    using review_pair_unique [of ?s1 7 3 4 "''Again''"] by blast
  moreover have "Review_objects_create empty_store 7 3 5 ''Wonderful stay!'' = (Inr row, ?s1)"
    using r by (simp add: prod_eq_iff)
  ultimately show ?thesis using d by blast
qed

text \<open>
  C5. Deleting a Listing leaves exactly the Bookings and the Reviews whose \<open>property\<close> is
  another Listing, in their order, and leaves the Users alone: every Booking and Review
  of the deleted Listing is gone and every other one is still there.
\<close>

theorem listing_delete_cascades:
  "bookings (Listing_delete l s)
     = filter (\<lambda>b. booking_property b \<noteq> property_id l) (bookings s)
   \<and> reviews (Listing_delete l s)
     = filter (\<lambda>r. review_property r \<noteq> property_id l) (reviews s)
   \<and> listings (Listing_delete l s)
     = filter (\<lambda>x. property_id x \<noteq> property_id l) (listings s)
   \<and> users (Listing_delete l s) = users s
   \<and> (\<forall>b \<in> set (bookings (Listing_delete l s)). booking_property b \<noteq> property_id l)
   \<and> (\<forall>r \<in> set (reviews (Listing_delete l s)). review_property r \<noteq> property_id l)
   \<and> (\<forall>b \<in> set (bookings s). booking_property b \<noteq> property_id l
          \<longrightarrow> b \<in> set (bookings (Listing_delete l s)))
   \<and> (\<forall>r \<in> set (reviews s). review_property r \<noteq> property_id l
          \<longrightarrow> r \<in> set (reviews (Listing_delete l s)))"
  by (simp add: Listing_delete_def cascade_listings_def)

theorem listing_delete_cascades_witness:
  "bookings (Listing_delete
      \<lparr>property_id = 1, host = 0, name = ''Lakefront Cottage'', description = ''Lake'',
       location = ''Lake Tahoe, Nevada'', price_per_night = Decimal2 19500\<rparr>
      \<lparr>users = [],
       listings =
         [\<lparr>property_id = 1, host = 0, name = ''Lakefront Cottage'', description = ''Lake'',
           location = ''Lake Tahoe, Nevada'', price_per_night = Decimal2 19500\<rparr>,
          \<lparr>property_id = 2, host = 0, name = ''Historic City Loft'', description = ''Loft'',
           location = ''Boston, Massachusetts'', price_per_night = Decimal2 22000\<rparr>],
       bookings =
         [\<lparr>booking_id = 3, booking_property = 1, booking_user = 9, start_date = Some 10,
           end_date = Some 12, total_price = Decimal2 39000, status = ''pending''\<rparr>,
          \<lparr>booking_id = 4, booking_property = 2, booking_user = 9, start_date = Some 10,
           end_date = Some 12, total_price = Decimal2 44000, status = ''confirmed''\<rparr>],
       reviews =
         [\<lparr>review_id = 5, review_property = 1, review_user = 9, rating = 4,
           comment = ''Wonderful stay!''\<rparr>,
          \<lparr>review_id = 6, review_property = 2, review_user = 9, rating = 5,
           comment = ''Exactly as described.''\<rparr>],
       next_id = 7\<rparr>)
   = [\<lparr>booking_id = 4, booking_property = 2, booking_user = 9, start_date = Some 10,
       end_date = Some 12, total_price = Decimal2 44000, status = ''confirmed''\<rparr>]
  \<and> reviews (Listing_delete
      \<lparr>property_id = 1, host = 0, name = ''Lakefront Cottage'', description = ''Lake'',
       location = ''Lake Tahoe, Nevada'', price_per_night = Decimal2 19500\<rparr>
      \<lparr>users = [],
       listings =
         [\<lparr>property_id = 1, host = 0, name = ''Lakefront Cottage'', description = ''Lake'',
           location = ''Lake Tahoe, Nevada'', price_per_night = Decimal2 19500\<rparr>,
          \<lparr>property_id = 2, host = 0, name = ''Historic City Loft'', description = ''Loft'',
           location = ''Boston, Massachusetts'', price_per_night = Decimal2 22000\<rparr>],
       bookings =
         [\<lparr>booking_id = 3, booking_property = 1, booking_user = 9, start_date = Some 10,
           end_date = Some 12, total_price = Decimal2 39000, status = ''pending''\<rparr>,
          \<lparr>booking_id = 4, booking_property = 2, booking_user = 9, start_date = Some 10,
           end_date = Some 12, total_price = Decimal2 44000, status = ''confirmed''\<rparr>],
       reviews =
         [\<lparr>review_id = 5, review_property = 1, review_user = 9, rating = 4,
           comment = ''Wonderful stay!''\<rparr>,
          \<lparr>review_id = 6, review_property = 2, review_user = 9, rating = 5,
           comment = ''Exactly as described.''\<rparr>],
       next_id = 7\<rparr>)
   = [\<lparr>review_id = 6, review_property = 2, review_user = 9, rating = 5,
       comment = ''Exactly as described.''\<rparr>]"
  using listing_delete_cascades
    [of "\<lparr>property_id = 1, host = 0, name = ''Lakefront Cottage'', description = ''Lake'',
       location = ''Lake Tahoe, Nevada'', price_per_night = Decimal2 19500\<rparr>"
      "\<lparr>users = [],
       listings =
         [\<lparr>property_id = 1, host = 0, name = ''Lakefront Cottage'', description = ''Lake'',
           location = ''Lake Tahoe, Nevada'', price_per_night = Decimal2 19500\<rparr>,
          \<lparr>property_id = 2, host = 0, name = ''Historic City Loft'', description = ''Loft'',
           location = ''Boston, Massachusetts'', price_per_night = Decimal2 22000\<rparr>],
       bookings =
         [\<lparr>booking_id = 3, booking_property = 1, booking_user = 9, start_date = Some 10,
           end_date = Some 12, total_price = Decimal2 39000, status = ''pending''\<rparr>,
          \<lparr>booking_id = 4, booking_property = 2, booking_user = 9, start_date = Some 10,
           end_date = Some 12, total_price = Decimal2 44000, status = ''confirmed''\<rparr>],
       reviews =
         [\<lparr>review_id = 5, review_property = 1, review_user = 9, rating = 4,
           comment = ''Wonderful stay!''\<rparr>,
          \<lparr>review_id = 6, review_property = 2, review_user = 9, rating = 5,
           comment = ''Exactly as described.''\<rparr>],
       next_id = 7\<rparr>"]
  by simp

section \<open>The seeder\<close>

subsection \<open>The random source\<close>

lemma random_choice_Inr:
  "xs \<noteq> [] \<Longrightarrow> \<exists>x. random_choice rnd p xs = Inr (x, Suc p) \<and> x \<in> set xs"
  by (simp add: random_choice_def)

lemma random_choice_Inl: "random_choice rnd p [] = Inl IndexError"
  by (simp add: random_choice_def)

lemma random_randint_range:
  "a \<le> b \<Longrightarrow> \<exists>k. random_randint rnd p a b = (k, Suc p) \<and> a \<le> k \<and> k \<le> b"
proof -
  assume ab: "a \<le> b"
  have "rnd p mod nat (b - a + 1) < nat (b - a + 1)" using ab by simp
  then have "int (rnd p mod nat (b - a + 1)) \<le> b - a" using ab by linarith
  then show ?thesis by (simp add: random_randint_def)
qed

lemma sample_loop_length:
  "k \<le> length xs \<Longrightarrow> length (fst (sample_loop rnd p xs k)) = k"
proof (induction k arbitrary: xs p)
  case 0
  then show ?case by simp
next
  case (Suc k)
  then have pos: "0 < length xs" by auto
  let ?i = "rnd p mod length xs"
  have i: "?i < length xs" using pos by simp
  have "k \<le> length (take ?i xs @ drop (Suc ?i) xs)" using Suc.prems i by simp
  from Suc.IH [OF this, of "Suc p"] show ?case
    by (auto simp: Let_def split: prod.splits)
qed

lemma sample_loop_subset:
  "k \<le> length xs \<Longrightarrow> set (fst (sample_loop rnd p xs k)) \<subseteq> set xs"
proof (induction k arbitrary: xs p)
  case 0
  then show ?case by simp
next
  case (Suc k)
  then have pos: "0 < length xs" by auto
  let ?i = "rnd p mod length xs"
  let ?rest = "take ?i xs @ drop (Suc ?i) xs"
  have i: "?i < length xs" using pos by simp
  have sub: "set ?rest \<subseteq> set xs"
    using set_take_subset [of ?i xs] set_drop_subset [of "Suc ?i" xs] by auto
  have len: "k \<le> length ?rest" using Suc.prems i by simp
  have mem: "xs ! ?i \<in> set xs" using i by simp
  from Suc.IH [OF len, of "Suc p"] sub mem show ?case
    by (auto simp: Let_def split: prod.splits)
qed

lemma sample_loop_distinct:
  "k \<le> length xs \<Longrightarrow> distinct (map f xs) \<Longrightarrow>
   distinct (map f (fst (sample_loop rnd p xs k)))"
proof (induction k arbitrary: xs p)
  case 0
  then show ?case by simp
next
  case (Suc k)
  then have pos: "0 < length xs" by auto
  let ?i = "rnd p mod length xs"
  let ?rest = "take ?i xs @ drop (Suc ?i) xs"
  have i: "?i < length xs" using pos by simp
  have xs: "xs = take ?i xs @ xs ! ?i # drop (Suc ?i) xs"
    using i by (simp add: id_take_nth_drop)
  have d: "distinct (map f (take ?i xs @ xs ! ?i # drop (Suc ?i) xs))"
    using Suc.prems(2) xs by simp
  have drest: "distinct (map f ?rest)" using d by auto
  have notin: "f (xs ! ?i) \<notin> f ` set ?rest" using d by auto
  have len: "k \<le> length ?rest" using Suc.prems(1) i by simp
  have ih1: "distinct (map f (fst (sample_loop rnd (Suc p) ?rest k)))"
    using Suc.IH [OF len drest] .
  have ih2: "set (fst (sample_loop rnd (Suc p) ?rest k)) \<subseteq> set ?rest"
    using sample_loop_subset [OF len] .
  show ?case using ih1 ih2 notin
    by (auto simp: Let_def split: prod.splits)
qed

lemma random_sample_Inr:
  "k \<le> length xs \<Longrightarrow>
   \<exists>ys p'. random_sample rnd p xs k = Inr (ys, p') \<and> length ys = k \<and> set ys \<subseteq> set xs
          \<and> (distinct (map f xs) \<longrightarrow> distinct (map f ys))"
  using sample_loop_length [of k xs rnd p] sample_loop_subset [of k xs rnd p]
    sample_loop_distinct [of k xs f rnd p]
  by (cases "sample_loop rnd p xs k") (simp add: random_sample_def)

subsection \<open>create_users\<close>

lemma filter_unique:
  "distinct (map f xs) \<Longrightarrow> x \<in> set xs \<Longrightarrow> filter (\<lambda>y. f y = f x) xs = [x]"
proof (induction xs)
  case Nil
  then show ?case by simp
next
  case (Cons a xs)
  show ?case
  proof (cases "a = x")
    case True
    then have "f x \<notin> f ` set xs" using Cons.prems(1) by simp
    then have "\<forall>y \<in> set xs. f y \<noteq> f x" by (metis imageI)
    then have "filter (\<lambda>y. f y = f x) xs = []" by (simp add: filter_empty_conv)
    then show ?thesis using True by simp
  next
    case False
    then have x: "x \<in> set xs" using Cons.prems(2) by simp
    then have "f a \<noteq> f x" using Cons.prems(1) by auto
    then show ?thesis using Cons.IH x Cons.prems(1) by simp
  qed
qed

lemma create_user_existing:
  assumes "distinct (map username (users s))" and "u \<in> set (users s)"
    and "username u = ud_username d"
  shows "create_user s d = Inr (u, s)"
proof -
  have "filter (\<lambda>y. username y = ud_username d) (users s) = [u]"
    using filter_unique [OF assms(1) assms(2)] assms(3) by simp
  then show ?thesis by (simp add: create_user_def User_objects_get_or_create_def)
qed

lemma create_user_absent:
  assumes "ud_username d \<notin> username ` set (users s)"
    and "\<forall>u \<in> set (users s). user_id u < next_id s"
  shows "\<exists>u. create_user s d
             = Inr (u, s\<lparr>users := users s @ [u], next_id := Suc (next_id s)\<rparr>)
           \<and> username u = ud_username d \<and> user_id u = next_id s"
proof -
  have "\<forall>y \<in> set (users s). username y \<noteq> ud_username d"
    using assms(1) by (metis imageI)
  then have f: "filter (\<lambda>y. username y = ud_username d) (users s) = []"
    by (simp add: filter_empty_conv)
  have m: "map (\<lambda>r. if user_id r = next_id s then v else r) (users s) = users s" for v
    using assms(2) by (intro map_idI) auto
  show ?thesis
    by (simp add: create_user_def User_objects_get_or_create_def f Let_def User_save_def
        set_password_def m)
qed

lemma create_users_loop_ok:
  "distinct (map username (users s)) \<Longrightarrow> \<forall>u \<in> set (users s). user_id u < next_id s \<Longrightarrow>
   distinct (map user_id (users s)) \<Longrightarrow>
   \<exists>us new. create_users_loop ds s acc
               = Inr (acc @ us, s\<lparr>users := users s @ new, next_id := next_id s + length new\<rparr>)
     \<and> map username us = map ud_username ds
     \<and> set us \<subseteq> set (users s @ new)
     \<and> distinct (map username (users s @ new))
     \<and> (\<forall>u \<in> set (users s @ new). user_id u < next_id s + length new)
     \<and> distinct (map user_id (users s @ new))
     \<and> username ` set new \<subseteq> ud_username ` set ds"
proof (induction ds arbitrary: s acc)
  case Nil
  show ?case using Nil.prems by (intro exI [of _ "[]"]) simp
next
  case (Cons d ds)
  show ?case
  proof (cases "ud_username d \<in> username ` set (users s)")
    case True
    then obtain u where u: "u \<in> set (users s)" "username u = ud_username d" by auto
    have cu: "create_user s d = Inr (u, s)"
      using create_user_existing [OF Cons.prems(1) u] .
    from Cons.IH [OF Cons.prems, of "acc @ [u]"] obtain us new where
      ih: "create_users_loop ds s (acc @ [u])
             = Inr ((acc @ [u]) @ us, s\<lparr>users := users s @ new, next_id := next_id s + length new\<rparr>)"
        "map username us = map ud_username ds"
        "set us \<subseteq> set (users s @ new)"
        "distinct (map username (users s @ new))"
        "\<forall>u \<in> set (users s @ new). user_id u < next_id s + length new"
        "distinct (map user_id (users s @ new))"
        "username ` set new \<subseteq> ud_username ` set ds"
      by blast
    show ?thesis
    proof (rule exI [of _ "u # us"], rule exI [of _ new], intro conjI)
      show "create_users_loop (d # ds) s acc
             = Inr (acc @ u # us, s\<lparr>users := users s @ new, next_id := next_id s + length new\<rparr>)"
        using cu ih(1) by simp
      show "map username (u # us) = map ud_username (d # ds)" using u(2) ih(2) by simp
      show "set (u # us) \<subseteq> set (users s @ new)" using u(1) ih(3) by auto
      show "distinct (map username (users s @ new))" using ih(4) .
      show "\<forall>u \<in> set (users s @ new). user_id u < next_id s + length new" using ih(5) .
      show "distinct (map user_id (users s @ new))" using ih(6) .
      show "username ` set new \<subseteq> ud_username ` set (d # ds)" using ih(7) by auto
    qed
  next
    case False
    from create_user_absent [OF False Cons.prems(2)] obtain u where
      cu: "create_user s d = Inr (u, s\<lparr>users := users s @ [u], next_id := Suc (next_id s)\<rparr>)"
      and un: "username u = ud_username d" and ui: "user_id u = next_id s" by blast
    let ?s1 = "s\<lparr>users := users s @ [u], next_id := Suc (next_id s)\<rparr>"
    have d1: "distinct (map username (users ?s1))"
      using Cons.prems(1) False un by simp
    have b1: "\<forall>x \<in> set (users ?s1). user_id x < next_id ?s1"
      using Cons.prems(2) ui by (auto simp: less_Suc_eq)
    have i1: "distinct (map user_id (users ?s1))"
      using Cons.prems(2,3) ui by auto
    from Cons.IH [OF d1 b1 i1, of "acc @ [u]"] obtain us new where
      ih: "create_users_loop ds ?s1 (acc @ [u])
             = Inr ((acc @ [u]) @ us,
                    ?s1\<lparr>users := users ?s1 @ new, next_id := next_id ?s1 + length new\<rparr>)"
        "map username us = map ud_username ds"
        "set us \<subseteq> set (users ?s1 @ new)"
        "distinct (map username (users ?s1 @ new))"
        "\<forall>x \<in> set (users ?s1 @ new). user_id x < next_id ?s1 + length new"
        "distinct (map user_id (users ?s1 @ new))"
        "username ` set new \<subseteq> ud_username ` set ds"
      by blast
    show ?thesis
    proof (rule exI [of _ "u # us"], rule exI [of _ "u # new"], intro conjI)
      show "create_users_loop (d # ds) s acc
             = Inr (acc @ u # us,
                    s\<lparr>users := users s @ u # new, next_id := next_id s + length (u # new)\<rparr>)"
        using cu ih(1) by simp
      show "map username (u # us) = map ud_username (d # ds)" using un ih(2) by simp
      show "set (u # us) \<subseteq> set (users s @ u # new)" using ih(3) by auto
      show "distinct (map username (users s @ u # new))" using ih(4) by simp
      show "\<forall>x \<in> set (users s @ u # new). user_id x < next_id s + length (u # new)"
        using ih(5) by simp
      show "distinct (map user_id (users s @ u # new))" using ih(6) by simp
      show "username ` set (u # new) \<subseteq> ud_username ` set (d # ds)" using ih(7) un by auto
    qed
  qed
qed

lemma create_users_loop_existing:
  "distinct (map username (users s)) \<Longrightarrow> set us \<subseteq> set (users s) \<Longrightarrow>
   map username us = map ud_username ds \<Longrightarrow>
   create_users_loop ds s acc = Inr (acc @ us, s)"
proof (induction ds arbitrary: us acc)
  case Nil
  then show ?case by simp
next
  case (Cons d ds)
  then obtain u us' where us: "us = u # us'" by (cases us) auto
  have cu: "create_user s d = Inr (u, s)"
    using create_user_existing [of s u d] Cons.prems us by simp
  have "create_users_loop ds s (acc @ [u]) = Inr ((acc @ [u]) @ us', s)"
    using Cons.IH [of us' "acc @ [u]"] Cons.prems us by simp
  then show ?case using cu us by simp
qed

lemma users_data_names:
  "map ud_username users_data
     = [''john_host'', ''jane_host'', ''mike_guest'', ''sarah_guest'', ''david_host'',
        ''emma_guest'']"
  by (simp add: users_data_def)

lemma hosts_of_seed_users:
  "map username us = map ud_username users_data \<Longrightarrow>
   map username (filter (\<lambda>u. str_contains ''host'' (username u)) us)
     = [''john_host'', ''jane_host'', ''david_host'']"
  by (auto simp: users_data_names map_eq_Cons_conv str_contains_def sublist_code prefix_code)

subsection \<open>create_listings\<close>

lemma create_listings_loop_ok:
  "hosts \<noteq> [] \<Longrightarrow>
   \<exists>ls. create_listings_loop hosts ds s acc
           = Inr (acc @ ls, s\<lparr>listings := listings s @ ls, next_id := next_id s + length ds\<rparr>)
       \<and> map property_id ls = [next_id s ..< next_id s + length ds]
       \<and> map price_per_night ls = map (ld_price_per_night \<circ> snd) ds
       \<and> (\<forall>l \<in> set ls. host l \<in> user_id ` set hosts)"
proof (induction ds arbitrary: s acc)
  case Nil
  show ?case by (rule exI [of _ "[]"]) simp
next
  case (Cons a ds)
  obtain i d where a: "a = (i, d)" by (cases a)
  let ?row = "\<lparr>property_id = next_id s, host = user_id (hosts ! (i mod length hosts)),
               name = ld_name d, description = ld_description d, location = ld_location d,
               price_per_night = ld_price_per_night d\<rparr>"
  let ?s1 = "s\<lparr>listings := listings s @ [?row], next_id := Suc (next_id s)\<rparr>"
  from Cons.IH [OF Cons.prems, of ?s1 "acc @ [?row]"] obtain ls where
    ih: "create_listings_loop hosts ds ?s1 (acc @ [?row])
           = Inr ((acc @ [?row]) @ ls,
                  ?s1\<lparr>listings := listings ?s1 @ ls, next_id := next_id ?s1 + length ds\<rparr>)"
      "map property_id ls = [next_id ?s1 ..< next_id ?s1 + length ds]"
      "map price_per_night ls = map (ld_price_per_night \<circ> snd) ds"
      "\<forall>l \<in> set ls. host l \<in> user_id ` set hosts"
    by blast
  have hmem: "hosts ! (i mod length hosts) \<in> set hosts" using Cons.prems by simp
  show ?case
  proof (rule exI [of _ "?row # ls"], intro conjI)
    show "create_listings_loop hosts (a # ds) s acc
            = Inr (acc @ ?row # ls,
                   s\<lparr>listings := listings s @ ?row # ls, next_id := next_id s + length (a # ds)\<rparr>)"
      using Cons.prems ih(1) by (simp add: a Listing_objects_create_def Let_def)
    show "map property_id (?row # ls) = [next_id s ..< next_id s + length (a # ds)]"
      using ih(2) by (simp add: upt_conv_Cons del: upt_Suc)
    show "map price_per_night (?row # ls) = map (ld_price_per_night \<circ> snd) (a # ds)"
      using ih(3) by (simp add: a)
    show "\<forall>l \<in> set (?row # ls). host l \<in> user_id ` set hosts"
      using ih(4) hmem by simp
  qed
qed

lemma listings_data_length: "length listings_data = 8"
  by (simp add: listings_data_def)

lemma listings_data_prices:
  "map ld_price_per_night listings_data
     = [Decimal2 25000, Decimal2 18000, Decimal2 30000, Decimal2 45000, Decimal2 12000,
        Decimal2 22000, Decimal2 19500, Decimal2 35000]"
  by (simp add: listings_data_def)

lemma create_listings_ok:
  assumes "filter (\<lambda>u. str_contains ''host'' (username u)) us \<noteq> []"
  shows "\<exists>ls. create_listings us s
           = Inr (ls, s\<lparr>listings := listings s @ ls, next_id := next_id s + 8\<rparr>)
       \<and> map property_id ls = [next_id s ..< next_id s + 8]
       \<and> map price_per_night ls = map ld_price_per_night listings_data
       \<and> (\<forall>l \<in> set ls. host l \<in> user_id ` set us)"
proof -
  let ?hosts = "filter (\<lambda>u. str_contains ''host'' (username u)) us"
  from create_listings_loop_ok [OF assms, of "enumerate 0 listings_data" s "[]"]
  obtain ls where
    l: "create_listings_loop ?hosts (enumerate 0 listings_data) s []
          = Inr ([] @ ls, s\<lparr>listings := listings s @ ls,
                             next_id := next_id s + length (enumerate 0 listings_data)\<rparr>)"
      "map property_id ls = [next_id s ..< next_id s + length (enumerate 0 listings_data)]"
      "map price_per_night ls = map (ld_price_per_night \<circ> snd) (enumerate 0 listings_data)"
      "\<forall>l \<in> set ls. host l \<in> user_id ` set ?hosts"
    by blast
  have m: "map (ld_price_per_night \<circ> snd) (enumerate 0 listings_data)
             = map ld_price_per_night listings_data"
    by (simp add: map_snd_enumerate flip: map_map)
  show ?thesis
  proof (rule exI [of _ ls], intro conjI)
    show "create_listings us s
            = Inr (ls, s\<lparr>listings := listings s @ ls, next_id := next_id s + 8\<rparr>)"
      using l(1) by (simp add: create_listings_def listings_data_length)
    show "map property_id ls = [next_id s ..< next_id s + 8]"
      using l(2) by (simp add: listings_data_length)
    show "map price_per_night ls = map ld_price_per_night listings_data"
      using l(3) m by simp
    show "\<forall>l \<in> set ls. host l \<in> user_id ` set us" using l(4) by auto
  qed
qed

lemma create_listings_no_hosts:
  "filter (\<lambda>u. str_contains ''host'' (username u)) us = [] \<Longrightarrow>
   create_listings us s = Inl ZeroDivisionError"
proof -
  assume h: "filter (\<lambda>u. str_contains ''host'' (username u)) us = []"
  obtain d ds where e: "listings_data = d # ds"
    using listings_data_length by (cases listings_data) auto
  show ?thesis by (simp add: create_listings_def h e enumerate_simps)
qed

subsection \<open>create_bookings\<close>

lemma statuses_nonempty: "statuses \<noteq> []"
  by (simp add: statuses_def)

lemma create_bookings_loop_ok:
  "ls \<noteq> [] \<Longrightarrow> guests \<noteq> [] \<Longrightarrow>
   \<exists>bs p'. create_bookings_loop rnd today ls guests n p s acc
              = Inr (acc @ bs, s\<lparr>bookings := bookings s @ bs, next_id := next_id s + n\<rparr>, p')
       \<and> length bs = n \<and> (\<forall>b \<in> set bs. seeded_booking today ls guests b)"
proof (induction n arbitrary: p s acc)
  case 0
  show ?case by (rule exI [of _ "[]"]) simp
next
  case (Suc n)
  obtain l where l: "random_choice rnd p ls = Inr (l, Suc p)" "l \<in> set ls"
    using random_choice_Inr [OF Suc.prems(1)] by blast
  obtain g where g: "random_choice rnd (Suc p) guests = Inr (g, Suc (Suc p))" "g \<in> set guests"
    using random_choice_Inr [OF Suc.prems(2)] by blast
  obtain k where k: "random_randint rnd (Suc (Suc p)) (- 30) 60 = (k, Suc (Suc (Suc p)))"
    "- 30 \<le> k" "k \<le> 60"
    using random_randint_range [of "- 30" 60] by force
  obtain d where d: "random_randint rnd (Suc (Suc (Suc p))) 2 14 = (d, Suc (Suc (Suc (Suc p))))"
    "2 \<le> d" "d \<le> 14"
    using random_randint_range [of 2 14] by force
  obtain st where st: "random_choice rnd (Suc (Suc (Suc (Suc p)))) statuses
                         = Inr (st, Suc (Suc (Suc (Suc (Suc p)))))" "st \<in> set statuses"
    using random_choice_Inr [OF statuses_nonempty] by blast
  let ?row = "\<lparr>booking_id = next_id s, booking_property = property_id l,
               booking_user = user_id g, start_date = Some (today + k),
               end_date = Some (today + k + d),
               total_price = dec_mul_int (price_per_night l) d, status = st\<rparr>"
  let ?s1 = "s\<lparr>bookings := bookings s @ [?row], next_id := Suc (next_id s)\<rparr>"
  from Suc.IH [OF Suc.prems, of "Suc (Suc (Suc (Suc (Suc p))))" ?s1 "acc @ [?row]"]
  obtain bs p' where
    ih: "create_bookings_loop rnd today ls guests n (Suc (Suc (Suc (Suc (Suc p))))) ?s1
           (acc @ [?row])
           = Inr ((acc @ [?row]) @ bs,
                  ?s1\<lparr>bookings := bookings ?s1 @ bs, next_id := next_id ?s1 + n\<rparr>, p')"
      "length bs = n" "\<forall>b \<in> set bs. seeded_booking today ls guests b"
    by blast
  have row: "seeded_booking today ls guests ?row"
    unfolding seeded_booking_def using l(2) g(2) k(2,3) d(2,3) st(2)
    by (intro bexI [of _ l] bexI [of _ g] exI [of _ k] exI [of _ d]) simp_all
  show ?case
  proof (rule exI [of _ "?row # bs"], rule exI [of _ p'], intro conjI)
    show "create_bookings_loop rnd today ls guests (Suc n) p s acc
            = Inr (acc @ ?row # bs,
                   s\<lparr>bookings := bookings s @ ?row # bs, next_id := next_id s + Suc n\<rparr>, p')"
      using ih(1) by (simp add: l(1) g(1) k(1) d(1) st(1) Booking_objects_create_def Let_def)
    show "length (?row # bs) = Suc n" using ih(2) by simp
    show "\<forall>b \<in> set (?row # bs). seeded_booking today ls guests b" using ih(3) row by simp
  qed
qed

lemma create_bookings_loop_fails:
  "ls = [] \<or> guests = [] \<Longrightarrow>
   create_bookings_loop rnd today ls guests (Suc n) p s acc = Inl IndexError"
  by (auto simp: random_choice_def split: sum.splits prod.splits)

subsection \<open>create_reviews\<close>

lemma review_comments_nonempty: "review_comments \<noteq> []"
  by (simp add: review_comments_def)

lemma create_reviews_inner_ok:
  "distinct (map user_id gs) \<Longrightarrow>
   \<forall>r \<in> set (reviews s). review_pair r \<notin> (\<lambda>g. (property_id l, user_id g)) ` set gs \<Longrightarrow>
   \<exists>rs p'. create_reviews_inner rnd l gs p s acc
              = Inr (acc @ rs, s\<lparr>reviews := reviews s @ rs, next_id := next_id s + length gs\<rparr>, p')
       \<and> map review_pair rs = map (\<lambda>g. (property_id l, user_id g)) gs
       \<and> (\<forall>r \<in> set rs. 3 \<le> rating r \<and> rating r \<le> 5)"
proof (induction gs arbitrary: p s acc)
  case Nil
  show ?case by (rule exI [of _ "[]"]) simp
next
  case (Cons g gs)
  obtain rt where rt: "random_randint rnd p 3 5 = (rt, Suc p)" "3 \<le> rt" "rt \<le> 5"
    using random_randint_range [of 3 5] by force
  obtain cm where cm: "random_choice rnd (Suc p) review_comments = Inr (cm, Suc (Suc p))"
    using random_choice_Inr [OF review_comments_nonempty] by blast
  let ?row = "\<lparr>review_id = next_id s, review_property = property_id l,
               review_user = user_id g, rating = rt, comment = cm\<rparr>"
  let ?s1 = "s\<lparr>reviews := reviews s @ [?row], next_id := Suc (next_id s)\<rparr>"
  have fresh: "(property_id l, user_id g) \<notin> set (map review_pair (reviews s))"
    using Cons.prems(2) by auto
  have rc: "Review_objects_create s (property_id l) (user_id g) rt cm = (Inr ?row, ?s1)"
    using fresh by (simp add: Review_objects_create_def Let_def)
  have d: "distinct (map user_id gs)" using Cons.prems(1) by simp
  have g: "user_id g \<notin> user_id ` set gs" using Cons.prems(1) by simp
  have f1: "\<forall>r \<in> set (reviews ?s1).
              review_pair r \<notin> (\<lambda>g. (property_id l, user_id g)) ` set gs"
    using Cons.prems(2) g by (auto simp: review_pair_def)
  from Cons.IH [OF d f1, of "Suc (Suc p)" "acc @ [?row]"] obtain rs p' where
    ih: "create_reviews_inner rnd l gs (Suc (Suc p)) ?s1 (acc @ [?row])
           = Inr ((acc @ [?row]) @ rs,
                  ?s1\<lparr>reviews := reviews ?s1 @ rs, next_id := next_id ?s1 + length gs\<rparr>, p')"
      "map review_pair rs = map (\<lambda>g. (property_id l, user_id g)) gs"
      "\<forall>r \<in> set rs. 3 \<le> rating r \<and> rating r \<le> 5"
    by blast
  show ?case
  proof (rule exI [of _ "?row # rs"], rule exI [of _ p'], intro conjI)
    show "create_reviews_inner rnd l (g # gs) p s acc
            = Inr (acc @ ?row # rs,
                   s\<lparr>reviews := reviews s @ ?row # rs,
                     next_id := next_id s + length (g # gs)\<rparr>, p')"
      using ih(1) by (simp add: rt(1) cm rc)
    show "map review_pair (?row # rs) = map (\<lambda>g. (property_id l, user_id g)) (g # gs)"
      using ih(2) by (simp add: review_pair_def)
    show "\<forall>r \<in> set (?row # rs). 3 \<le> rating r \<and> rating r \<le> 5"
      using ih(3) rt(2,3) by simp
  qed
qed

lemma create_reviews_inner_result:
  "create_reviews_inner rnd l gs p s acc = Inr (res, s', p') \<Longrightarrow>
   \<exists>rs. res = acc @ rs \<and> reviews s' = reviews s @ rs
       \<and> distinct (map review_pair rs)
       \<and> set (map review_pair rs) \<inter> set (map review_pair (reviews s)) = {}
       \<and> (\<forall>r \<in> set rs. 3 \<le> rating r \<and> rating r \<le> 5)"
proof (induction gs arbitrary: p s acc)
  case Nil
  then show ?case by simp
next
  case (Cons g gs)
  obtain rt where rt: "random_randint rnd p 3 5 = (rt, Suc p)" "3 \<le> rt" "rt \<le> 5"
    using random_randint_range [of 3 5] by force
  obtain cm where cm: "random_choice rnd (Suc p) review_comments = Inr (cm, Suc (Suc p))"
    using random_choice_Inr [OF review_comments_nonempty] by blast
  let ?row = "\<lparr>review_id = next_id s, review_property = property_id l,
               review_user = user_id g, rating = rt, comment = cm\<rparr>"
  let ?s1 = "s\<lparr>reviews := reviews s @ [?row], next_id := Suc (next_id s)\<rparr>"
  show ?case
  proof (cases "(property_id l, user_id g) \<in> set (map review_pair (reviews s))")
    case True
    then have "Review_objects_create s (property_id l) (user_id g) rt cm
                 = (Inl IntegrityError, s)"
      by (simp add: Review_objects_create_def)
    then have "create_reviews_inner rnd l (g # gs) p s acc = Inl IntegrityError"
      by (simp add: rt(1) cm)
    then show ?thesis using Cons.prems by simp
  next
    case False
    then have rc: "Review_objects_create s (property_id l) (user_id g) rt cm = (Inr ?row, ?s1)"
      by (simp add: Review_objects_create_def Let_def)
    have "create_reviews_inner rnd l gs (Suc (Suc p)) ?s1 (acc @ [?row]) = Inr (res, s', p')"
      using Cons.prems by (simp add: rt(1) cm rc)
    from Cons.IH [OF this] obtain rs where
      ih: "res = (acc @ [?row]) @ rs" "reviews s' = reviews ?s1 @ rs"
        "distinct (map review_pair rs)"
        "set (map review_pair rs) \<inter> set (map review_pair (reviews ?s1)) = {}"
        "\<forall>r \<in> set rs. 3 \<le> rating r \<and> rating r \<le> 5"
      by blast
    have rp: "review_pair ?row = (property_id l, user_id g)" by (simp add: review_pair_def)
    show ?thesis
    proof (rule exI [of _ "?row # rs"], intro conjI)
      show "res = acc @ ?row # rs" using ih(1) by simp
      show "reviews s' = reviews s @ ?row # rs" using ih(2) by simp
      show "distinct (map review_pair (?row # rs))" using ih(3,4) by auto
      show "set (map review_pair (?row # rs)) \<inter> set (map review_pair (reviews s)) = {}"
        using ih(4) False rp by auto
      show "\<forall>r \<in> set (?row # rs). 3 \<le> rating r \<and> rating r \<le> 5" using ih(5) rt(2,3) by simp
    qed
  qed
qed

lemma create_reviews_outer_ok:
  "distinct (map property_id ls) \<Longrightarrow> distinct (map user_id guests) \<Longrightarrow>
   \<forall>r \<in> set (reviews s). review_property r \<notin> property_id ` set ls \<Longrightarrow>
   \<exists>rs p'. create_reviews_outer rnd ls guests p s acc
              = Inr (acc @ rs, s\<lparr>reviews := reviews s @ rs, next_id := next_id s + length rs\<rparr>, p')
       \<and> length rs \<le> 3 * length ls
       \<and> (guests \<noteq> [] \<longrightarrow> length ls \<le> length rs)
       \<and> review_property ` set rs \<subseteq> property_id ` set ls"
proof (induction ls arbitrary: p s acc)
  case Nil
  show ?case by (rule exI [of _ "[]"]) simp
next
  case (Cons l ls)
  obtain n where n: "random_randint rnd p 1 3 = (n, Suc p)" "1 \<le> n" "n \<le> 3"
    using random_randint_range [of 1 3] by force
  let ?k = "min (nat n) (length guests)"
  have "?k \<le> length guests" by simp
  from random_sample_Inr [OF this, where f = user_id and rnd = rnd and p = "Suc p"] obtain gs p2 where
    gs: "random_sample rnd (Suc p) guests ?k = Inr (gs, p2)" "length gs = ?k"
      "set gs \<subseteq> set guests" "distinct (map user_id gs)"
    using Cons.prems(2) by blast
  have f: "\<forall>r \<in> set (reviews s).
             review_pair r \<notin> (\<lambda>g. (property_id l, user_id g)) ` set gs"
    using Cons.prems(3) by (auto simp: review_pair_def)
  from create_reviews_inner_ok [OF gs(4) f, of rnd p2 acc] obtain rs1 p3 where
    inner: "create_reviews_inner rnd l gs p2 s acc
              = Inr (acc @ rs1,
                     s\<lparr>reviews := reviews s @ rs1, next_id := next_id s + length gs\<rparr>, p3)"
      "map review_pair rs1 = map (\<lambda>g. (property_id l, user_id g)) gs"
    by blast
  have len1: "length rs1 = length gs" using inner(2) by (metis length_map)
  have prop1: "\<forall>r \<in> set rs1. review_property r = property_id l"
  proof
    fix r assume "r \<in> set rs1"
    then have "review_pair r \<in> set (map (\<lambda>g. (property_id l, user_id g)) gs)"
      using inner(2) by (metis image_eqI set_map)
    then show "review_property r = property_id l" by (auto simp: review_pair_def)
  qed
  let ?s1 = "s\<lparr>reviews := reviews s @ rs1, next_id := next_id s + length gs\<rparr>"
  have d: "distinct (map property_id ls)" using Cons.prems(1) by simp
  have lnot: "property_id l \<notin> property_id ` set ls" using Cons.prems(1) by simp
  have f1: "\<forall>r \<in> set (reviews ?s1). review_property r \<notin> property_id ` set ls"
    using Cons.prems(3) prop1 lnot by auto
  from Cons.IH [OF d Cons.prems(2) f1, of p3 "acc @ rs1"] obtain rs2 p' where
    ih: "create_reviews_outer rnd ls guests p3 ?s1 (acc @ rs1)
           = Inr ((acc @ rs1) @ rs2,
                  ?s1\<lparr>reviews := reviews ?s1 @ rs2, next_id := next_id ?s1 + length rs2\<rparr>, p')"
      "length rs2 \<le> 3 * length ls"
      "guests \<noteq> [] \<longrightarrow> length ls \<le> length rs2"
      "review_property ` set rs2 \<subseteq> property_id ` set ls"
    by blast
  have k3: "?k \<le> 3" using n(3) by simp
  have k1: "guests \<noteq> [] \<longrightarrow> 1 \<le> ?k" using n(2) by (cases guests) auto
  show ?case
  proof (rule exI [of _ "rs1 @ rs2"], rule exI [of _ p'], intro conjI)
    show "create_reviews_outer rnd (l # ls) guests p s acc
            = Inr (acc @ rs1 @ rs2,
                   s\<lparr>reviews := reviews s @ rs1 @ rs2,
                     next_id := next_id s + length (rs1 @ rs2)\<rparr>, p')"
      using ih(1) by (simp add: n(1) gs(1) inner(1) len1 add.assoc)
    show "length (rs1 @ rs2) \<le> 3 * length (l # ls)"
      using ih(2) len1 gs(2) k3 by simp
    show "guests \<noteq> [] \<longrightarrow> length (l # ls) \<le> length (rs1 @ rs2)"
      using ih(3) len1 gs(2) k1 by auto
    show "review_property ` set (rs1 @ rs2) \<subseteq> property_id ` set (l # ls)"
      using ih(4) prop1 by auto
  qed
qed

lemma create_reviews_outer_result:
  "create_reviews_outer rnd ls guests p s acc = Inr (res, s', p') \<Longrightarrow>
   \<exists>rs. res = acc @ rs \<and> reviews s' = reviews s @ rs
       \<and> distinct (map review_pair rs)
       \<and> set (map review_pair rs) \<inter> set (map review_pair (reviews s)) = {}
       \<and> (\<forall>r \<in> set rs. 3 \<le> rating r \<and> rating r \<le> 5)"
proof (induction ls arbitrary: p s acc)
  case Nil
  then show ?case by simp
next
  case (Cons l ls)
  obtain n where n: "random_randint rnd p 1 3 = (n, Suc p)"
    by (simp add: random_randint_def)
  from Cons.prems obtain gs p2 where
    gs: "random_sample rnd (Suc p) guests (min (nat n) (length guests)) = Inr (gs, p2)"
    by (auto simp: n split: sum.splits)
  from Cons.prems obtain acc1 s1 p3 where
    inner: "create_reviews_inner rnd l gs p2 s acc = Inr (acc1, s1, p3)"
    by (auto simp: n gs split: sum.splits)
  have outer: "create_reviews_outer rnd ls guests p3 s1 acc1 = Inr (res, s', p')"
    using Cons.prems by (simp add: n gs inner)
  from create_reviews_inner_result [OF inner] obtain rs1 where
    r1: "acc1 = acc @ rs1" "reviews s1 = reviews s @ rs1" "distinct (map review_pair rs1)"
      "set (map review_pair rs1) \<inter> set (map review_pair (reviews s)) = {}"
      "\<forall>r \<in> set rs1. 3 \<le> rating r \<and> rating r \<le> 5"
    by blast
  from Cons.IH [OF outer] obtain rs2 where
    r2: "res = acc1 @ rs2" "reviews s' = reviews s1 @ rs2" "distinct (map review_pair rs2)"
      "set (map review_pair rs2) \<inter> set (map review_pair (reviews s1)) = {}"
      "\<forall>r \<in> set rs2. 3 \<le> rating r \<and> rating r \<le> 5"
    by blast
  show ?case
  proof (rule exI [of _ "rs1 @ rs2"], intro conjI)
    show "res = acc @ rs1 @ rs2" using r1(1) r2(1) by simp
    show "reviews s' = reviews s @ rs1 @ rs2" using r1(2) r2(2) by simp
    show "distinct (map review_pair (rs1 @ rs2))" using r1(2,3) r2(3,4) by auto
    show "set (map review_pair (rs1 @ rs2)) \<inter> set (map review_pair (reviews s)) = {}"
      using r1(2,4) r2(4) by auto
    show "\<forall>r \<in> set (rs1 @ rs2). 3 \<le> rating r \<and> rating r \<le> 5" using r1(5) r2(5) by auto
  qed
qed

subsection \<open>Decimal multiplication\<close>

lemma dec_mul_int_small:
  "dec_int p * nat \<bar>d\<bar> < 10 ^ 28 \<Longrightarrow>
   dec_mul_int p d = \<lparr>dec_sign = (dec_sign p \<noteq> (d < 0)), dec_int = dec_int p * nat \<bar>d\<bar>,
                      dec_exp = dec_exp p\<rparr>"
  by (simp add: dec_mul_int_def dec_fix_def)

lemma dec_mul_int_exact:
  assumes "dec_int p * nat \<bar>d\<bar> < 10 ^ 28"
  shows "dec_val (dec_mul_int p d) = dec_val p * of_int d"
proof -
  have a: "(of_nat (dec_int p * nat \<bar>d\<bar>) :: rat) = of_nat (dec_int p) * of_int \<bar>d\<bar>"
    by simp
  show ?thesis
  proof (cases "d < 0")
    case True
    then have "(of_int \<bar>d\<bar> :: rat) = - of_int d" by simp
    then show ?thesis using True a
      by (simp add: dec_mul_int_small [OF assms] dec_val_def)
  next
    case False
    then have "(of_int \<bar>d\<bar> :: rat) = of_int d" by simp
    then show ?thesis using False a
      by (simp add: dec_mul_int_small [OF assms] dec_val_def)
  qed
qed

lemma seed_price_small:
  "p \<in> set (map ld_price_per_night listings_data) \<Longrightarrow>
   \<not> dec_sign p \<and> dec_exp p = - 2 \<and> 0 < dec_int p \<and> dec_int p \<le> 45000"
  by (auto simp: listings_data_prices Decimal2_def)

lemma seed_price_times:
  assumes "p \<in> set (map ld_price_per_night listings_data)" and "2 \<le> d" and "d \<le> 14"
  shows "dec_val (dec_mul_int p d) = dec_val p * of_int d"
    and "0 < dec_val p" and "0 < dec_val (dec_mul_int p d)"
proof -
  from seed_price_small [OF assms(1)]
  have p: "\<not> dec_sign p" "dec_exp p = - 2" "0 < dec_int p" "dec_int p \<le> 45000" by auto
  have "nat \<bar>d\<bar> \<le> 14" using assms(2,3) by simp
  then have "dec_int p * nat \<bar>d\<bar> \<le> 45000 * 14" using p(4) by (rule mult_le_mono [rotated])
  then have small: "dec_int p * nat \<bar>d\<bar> < 10 ^ 28" by simp
  show e: "dec_val (dec_mul_int p d) = dec_val p * of_int d"
    using dec_mul_int_exact [OF small] .
  show pos: "0 < dec_val p" using p by (simp add: dec_val_def)
  have "(0::rat) < of_int d" using assms(2) by simp
  then show "0 < dec_val (dec_mul_int p d)" using e pos by simp
qed

subsection \<open>The phases of handle on a well-formed store\<close>

lemma guests_of_seed_users:
  "map username us = map ud_username users_data \<Longrightarrow>
   map username (filter (\<lambda>u. str_contains ''guest'' (username u)) us)
     = [''mike_guest'', ''sarah_guest'', ''emma_guest'']"
  by (auto simp: users_data_names map_eq_Cons_conv str_contains_def sublist_code prefix_code)

lemma users_data_distinct: "distinct (map ud_username users_data)"
  by (simp add: users_data_names)

lemma create_users_ok:
  assumes "store_ok s"
  shows "\<exists>us new. create_users s
                 = Inr (us, s\<lparr>users := users s @ new, next_id := next_id s + length new\<rparr>)
     \<and> map username us = map ud_username users_data
     \<and> set us \<subseteq> set (users s @ new)
     \<and> distinct (map username (users s @ new))
     \<and> (\<forall>u \<in> set (users s @ new). user_id u < next_id s + length new)
     \<and> distinct (map user_id (users s @ new))
     \<and> username ` set new \<subseteq> ud_username ` set users_data"
proof -
  have a: "distinct (map username (users s))" "\<forall>u \<in> set (users s). user_id u < next_id s"
    "distinct (map user_id (users s))"
    using assms by (simp_all add: store_ok_def list_all_iff)
  from create_users_loop_ok [OF a, of users_data "[]"] show ?thesis
    by (simp add: create_users_def)
qed

lemma create_users_twice:
  assumes "store_ok s" and "create_users s = Inr (us, s')"
  shows "create_users s' = Inr (us, s')"
proof -
  from create_users_ok [OF assms(1)] obtain us' new where
    r: "create_users s = Inr (us', s\<lparr>users := users s @ new, next_id := next_id s + length new\<rparr>)"
      "map username us' = map ud_username users_data"
      "set us' \<subseteq> set (users s @ new)"
      "distinct (map username (users s @ new))"
    by blast
  have e: "us' = us" "s' = s\<lparr>users := users s @ new, next_id := next_id s + length new\<rparr>"
    using r(1) assms(2) by simp_all
  have "create_users_loop users_data s' [] = Inr ([] @ us, s')"
    using r(2,3,4) e by (intro create_users_loop_existing) simp_all
  then show ?thesis by (simp add: create_users_def)
qed

lemma create_bookings_ok:
  assumes "ls \<noteq> []" and "filter (\<lambda>u. str_contains ''guest'' (username u)) us \<noteq> []"
  shows "\<exists>bs p'. create_bookings rnd today ls us p s
                = Inr (bs, s\<lparr>bookings := bookings s @ bs, next_id := next_id s + 15\<rparr>, p')
     \<and> length bs = 15
     \<and> (\<forall>b \<in> set bs.
           seeded_booking today ls (filter (\<lambda>u. str_contains ''guest'' (username u)) us) b)"
  using create_bookings_loop_ok [OF assms, of rnd today 15 p s "[]"]
  by (simp add: create_bookings_def)

lemma create_bookings_result:
  assumes "create_bookings rnd today ls us p s = Inr (bs, s', p')"
  shows "\<forall>b \<in> set bs.
           seeded_booking today ls (filter (\<lambda>u. str_contains ''guest'' (username u)) us) b"
proof -
  let ?guests = "filter (\<lambda>u. str_contains ''guest'' (username u)) us"
  have ne: "ls \<noteq> [] \<and> ?guests \<noteq> []"
  proof (rule ccontr)
    assume "\<not> (ls \<noteq> [] \<and> ?guests \<noteq> [])"
    then have "ls = [] \<or> ?guests = []" by blast
    then have "create_bookings_loop rnd today ls ?guests (Suc 14) p s [] = Inl IndexError"
      by (rule create_bookings_loop_fails)
    then show False using assms by (simp add: create_bookings_def)
  qed
  from create_bookings_ok [of ls us rnd today p s] ne assms show ?thesis by auto
qed

lemma create_reviews_ok:
  assumes "distinct (map property_id ls)" and "distinct (map user_id us)"
    and "\<forall>r \<in> set (reviews s). review_property r \<notin> property_id ` set ls"
  shows "\<exists>rs p'. create_reviews rnd ls us p s
                = Inr (rs, s\<lparr>reviews := reviews s @ rs, next_id := next_id s + length rs\<rparr>, p')
     \<and> length rs \<le> 3 * min 6 (length ls)
     \<and> (filter (\<lambda>u. str_contains ''guest'' (username u)) us \<noteq> []
          \<longrightarrow> min 6 (length ls) \<le> length rs)
     \<and> review_property ` set rs \<subseteq> property_id ` set ls"
proof -
  let ?guests = "filter (\<lambda>u. str_contains ''guest'' (username u)) us"
  have "min 6 (length ls) \<le> length ls" by simp
  from random_sample_Inr [OF this, where f = property_id and rnd = rnd and p = p]
  obtain chosen p1 where
    c: "random_sample rnd p ls (min 6 (length ls)) = Inr (chosen, p1)"
      "length chosen = min 6 (length ls)" "set chosen \<subseteq> set ls"
      "distinct (map property_id chosen)"
    using assms(1) by blast
  have dg: "distinct (map user_id ?guests)" using assms(2) by (rule distinct_map_filter)
  have f: "\<forall>r \<in> set (reviews s). review_property r \<notin> property_id ` set chosen"
    using assms(3) c(3) by auto
  from create_reviews_outer_ok [OF c(4) dg f, of rnd p1 "[]"] obtain rs p' where
    o: "create_reviews_outer rnd chosen ?guests p1 s []
          = Inr ([] @ rs, s\<lparr>reviews := reviews s @ rs, next_id := next_id s + length rs\<rparr>, p')"
      "length rs \<le> 3 * length chosen"
      "?guests \<noteq> [] \<longrightarrow> length chosen \<le> length rs"
      "review_property ` set rs \<subseteq> property_id ` set chosen"
    by blast
  show ?thesis
  proof (rule exI [of _ rs], rule exI [of _ p'], intro conjI)
    show "create_reviews rnd ls us p s
            = Inr (rs, s\<lparr>reviews := reviews s @ rs, next_id := next_id s + length rs\<rparr>, p')"
      using o(1) by (simp add: create_reviews_def c(1))
    show "length rs \<le> 3 * min 6 (length ls)" using o(2) c(2) by simp
    show "?guests \<noteq> [] \<longrightarrow> min 6 (length ls) \<le> length rs" using o(3) c(2) by simp
    show "review_property ` set rs \<subseteq> property_id ` set ls" using o(4) c(3) by auto
  qed
qed

lemma create_reviews_result:
  assumes "create_reviews rnd ls us p s = Inr (rs, s', p')"
  shows "distinct (map review_pair rs) \<and> (\<forall>r \<in> set rs. 3 \<le> rating r \<and> rating r \<le> 5)
         \<and> reviews s' = reviews s @ rs"
proof -
  from assms obtain chosen p1 where
    "create_reviews_outer rnd chosen (filter (\<lambda>u. str_contains ''guest'' (username u)) us)
       p1 s [] = Inr (rs, s', p')"
    by (auto simp: create_reviews_def split: sum.splits)
  from create_reviews_outer_result [OF this] show ?thesis by auto
qed

subsection \<open>handle\<close>

lemma handle_Inr:
  assumes "handle clear rnd today s = Inr r"
  shows "\<exists>us s1 ls s2 bs s3 p rs s4 p'.
           create_users (if clear then clear_data s else s) = Inr (us, s1)
         \<and> create_listings us s1 = Inr (ls, s2)
         \<and> create_bookings rnd today ls us 0 s2 = Inr (bs, s3, p)
         \<and> create_reviews rnd ls us p s3 = Inr (rs, s4, p')
         \<and> r = \<lparr>seeded_users = us, seeded_listings = ls, seeded_bookings = bs,
                 seeded_reviews = rs, seeded_store = s4\<rparr>"
  using assms by (auto simp: handle_def Let_def split: sum.splits)

lemma create_listings_result:
  assumes "create_listings us s = Inr (ls, s')"
  shows "map price_per_night ls = map ld_price_per_night listings_data
         \<and> map property_id ls = [next_id s ..< next_id s + 8]
         \<and> s' = s\<lparr>listings := listings s @ ls, next_id := next_id s + 8\<rparr>"
proof (cases "filter (\<lambda>u. str_contains ''host'' (username u)) us = []")
  case True
  then show ?thesis using create_listings_no_hosts [OF True, of s] assms by simp
next
  case False
  from create_listings_ok [OF False, of s] assms show ?thesis by auto
qed

lemma clear_data_empty:
  "users s = [] \<Longrightarrow> listings s = [] \<Longrightarrow> bookings s = [] \<Longrightarrow> reviews s = [] \<Longrightarrow>
   clear_data s = s"
  by (cases s)
    (simp add: clear_data_def User_objects_filter_not_superuser_delete_def
      Listing_objects_all_delete_def Booking_objects_all_delete_def
      Review_objects_all_delete_def cascade_users_def cascade_listings_def Let_def)

lemma store_ok_clear_data: "store_ok s \<Longrightarrow> store_ok (clear_data s)"
  by (simp add: store_ok_def clear_data_def User_objects_filter_not_superuser_delete_def
      Listing_objects_all_delete_def Booking_objects_all_delete_def
      Review_objects_all_delete_def cascade_users_def cascade_listings_def Let_def
      list_all_iff distinct_map_filter)

lemma handle_ok:
  assumes ok: "store_ok s0" and s0: "s0 = (if clear then clear_data s else s)"
  shows "\<exists>r new. handle clear rnd today s = Inr r
     \<and> seeded_store r
         = s0\<lparr>users := users s0 @ new, listings := listings s0 @ seeded_listings r,
              bookings := bookings s0 @ seeded_bookings r,
              reviews := reviews s0 @ seeded_reviews r,
              next_id := next_id s0 + length new + 23 + length (seeded_reviews r)\<rparr>
     \<and> create_users s0
         = Inr (seeded_users r,
                s0\<lparr>users := users s0 @ new, next_id := next_id s0 + length new\<rparr>)
     \<and> map username (seeded_users r) = map ud_username users_data
     \<and> set (seeded_users r) \<subseteq> set (users s0 @ new)
     \<and> distinct (map username (users s0 @ new))
     \<and> username ` set new \<subseteq> ud_username ` set users_data
     \<and> length (seeded_listings r) = 8 \<and> length (seeded_bookings r) = 15
     \<and> 6 \<le> length (seeded_reviews r) \<and> length (seeded_reviews r) \<le> 18
     \<and> store_ok (seeded_store r)"
proof -
  let ?host = "\<lambda>u. str_contains ''host'' (username u)"
  let ?guest = "\<lambda>u. str_contains ''guest'' (username u)"
  from create_users_ok [OF ok] obtain us new where
    u: "create_users s0
          = Inr (us, s0\<lparr>users := users s0 @ new, next_id := next_id s0 + length new\<rparr>)"
      "map username us = map ud_username users_data"
      "set us \<subseteq> set (users s0 @ new)"
      "distinct (map username (users s0 @ new))"
      "\<forall>x \<in> set (users s0 @ new). user_id x < next_id s0 + length new"
      "distinct (map user_id (users s0 @ new))"
      "username ` set new \<subseteq> ud_username ` set users_data"
    by blast
  let ?s1 = "s0\<lparr>users := users s0 @ new, next_id := next_id s0 + length new\<rparr>"
  have hosts: "filter ?host us \<noteq> []" using hosts_of_seed_users [OF u(2)] by auto
  have guests: "filter ?guest us \<noteq> []" using guests_of_seed_users [OF u(2)] by auto
  from create_listings_ok [OF hosts, of ?s1] obtain ls where
    l: "create_listings us ?s1
          = Inr (ls, ?s1\<lparr>listings := listings ?s1 @ ls, next_id := next_id ?s1 + 8\<rparr>)"
      "map property_id ls = [next_id ?s1 ..< next_id ?s1 + 8]"
    by blast
  let ?s2 = "?s1\<lparr>listings := listings ?s1 @ ls, next_id := next_id ?s1 + 8\<rparr>"
  have "length (map property_id ls) = 8" unfolding l(2) by simp
  then have len_ls: "length ls = 8" by simp
  then have ls_ne: "ls \<noteq> []" by auto
  from create_bookings_ok [OF ls_ne guests, of rnd today 0 ?s2] obtain bs p where
    b: "create_bookings rnd today ls us 0 ?s2
          = Inr (bs, ?s2\<lparr>bookings := bookings ?s2 @ bs, next_id := next_id ?s2 + 15\<rparr>, p)"
      "length bs = 15"
    by blast
  let ?s3 = "?s2\<lparr>bookings := bookings ?s2 @ bs, next_id := next_id ?s2 + 15\<rparr>"
  have d_ls: "distinct (map property_id ls)" unfolding l(2) by simp
  have "distinct (map username us)" using u(2) users_data_distinct by simp
  then have "distinct us" by (simp add: distinct_map)
  moreover have "inj_on user_id (set us)"
    using u(3,6) by (meson distinct_map inj_on_subset)
  ultimately have d_us: "distinct (map user_id us)" by (simp add: distinct_map)
  have old: "\<forall>r \<in> set (reviews s0). review_property r < next_id s0"
    using ok by (simp add: store_ok_def list_all_iff)
  have pids: "property_id ` set ls = {next_id ?s1 ..< next_id ?s1 + 8}"
    using l(2) by (metis set_map set_upt)
  have fresh: "\<forall>r \<in> set (reviews ?s3). review_property r \<notin> property_id ` set ls"
    unfolding pids using old by auto
  from create_reviews_ok [OF d_ls d_us fresh, of rnd p] obtain rs p' where
    r: "create_reviews rnd ls us p ?s3
          = Inr (rs, ?s3\<lparr>reviews := reviews ?s3 @ rs, next_id := next_id ?s3 + length rs\<rparr>, p')"
      "length rs \<le> 3 * min 6 (length ls)"
      "filter ?guest us \<noteq> [] \<longrightarrow> min 6 (length ls) \<le> length rs"
      "review_property ` set rs \<subseteq> property_id ` set ls"
    by blast
  let ?s4 = "?s3\<lparr>reviews := reviews ?s3 @ rs, next_id := next_id ?s3 + length rs\<rparr>"
  let ?r = "\<lparr>seeded_users = us, seeded_listings = ls, seeded_bookings = bs,
             seeded_reviews = rs, seeded_store = ?s4\<rparr>"
  have h: "handle clear rnd today s = Inr ?r"
    unfolding handle_def Let_def s0 [symmetric]
    by (simp only: u(1) l(1) b(1) r(1) sum.case prod.case)
  have nx: "next_id ?s4 = next_id s0 + length new + 23 + length rs" by simp
  have us4: "users ?s4 = users s0 @ new" by simp
  have rv4: "reviews ?s4 = reviews s0 @ rs" by simp
  have newrev: "\<forall>x \<in> set rs. review_property x < next_id s0 + length new + 8"
  proof
    fix x assume "x \<in> set rs"
    then have "review_property x \<in> {next_id ?s1 ..< next_id ?s1 + 8}"
      using r(4) pids by auto
    then show "review_property x < next_id s0 + length new + 8" by simp
  qed
  have ok4: "store_ok ?s4"
    unfolding store_ok_def list_all_iff nx us4 rv4
  proof (intro conjI)
    show "distinct (map username (users s0 @ new))" using u(4) .
    show "distinct (map user_id (users s0 @ new))" using u(6) .
    show "\<forall>x \<in> set (users s0 @ new). user_id x < next_id s0 + length new + 23 + length rs"
      using u(5) by fastforce
    show "\<forall>x \<in> set (reviews s0 @ rs).
            review_property x < next_id s0 + length new + 23 + length rs"
      using old newrev by fastforce
  qed
  show ?thesis
  proof (rule exI [of _ ?r], rule exI [of _ new], intro conjI)
    show "handle clear rnd today s = Inr ?r" by (rule h)
    show "seeded_store ?r
         = s0\<lparr>users := users s0 @ new, listings := listings s0 @ seeded_listings ?r,
              bookings := bookings s0 @ seeded_bookings ?r,
              reviews := reviews s0 @ seeded_reviews ?r,
              next_id := next_id s0 + length new + 23 + length (seeded_reviews ?r)\<rparr>"
      by simp
    show "create_users s0
         = Inr (seeded_users ?r,
                s0\<lparr>users := users s0 @ new, next_id := next_id s0 + length new\<rparr>)"
      using u(1) by simp
    show "map username (seeded_users ?r) = map ud_username users_data" using u(2) by simp
    show "set (seeded_users ?r) \<subseteq> set (users s0 @ new)" using u(3) by simp
    show "distinct (map username (users s0 @ new))" by (rule u(4))
    show "username ` set new \<subseteq> ud_username ` set users_data" by (rule u(7))
    show "length (seeded_listings ?r) = 8" using len_ls by simp
    show "length (seeded_bookings ?r) = 15" using b(2) by simp
    show "6 \<le> length (seeded_reviews ?r)" using r(3) guests len_ls by simp
    show "length (seeded_reviews ?r) \<le> 18" using r(2) len_ls by simp
    show "store_ok (seeded_store ?r)" using ok4 by simp
  qed
qed

lemma create_bookings_nonempty:
  assumes "create_bookings rnd today ls us p s = Inr (bs, s', p')"
  shows "ls \<noteq> [] \<and> filter (\<lambda>u. str_contains ''guest'' (username u)) us \<noteq> []"
proof (rule ccontr)
  let ?guests = "filter (\<lambda>u. str_contains ''guest'' (username u)) us"
  assume "\<not> (ls \<noteq> [] \<and> ?guests \<noteq> [])"
  then have "ls = [] \<or> ?guests = []" by blast
  then have "create_bookings_loop rnd today ls ?guests (Suc 14) p s [] = Inl IndexError"
    by (rule create_bookings_loop_fails)
  then show False using assms by (simp add: create_bookings_def)
qed

lemma create_bookings_loop_first:
  assumes "ls \<noteq> []" and "guests \<noteq> []"
  shows "\<exists>bs s' p'. create_bookings_loop rnd today ls guests (Suc n) p s [] = Inr (bs, s', p')
           \<and> bs \<noteq> []
           \<and> start_date (hd bs)
               = Some (today + fst (random_randint rnd (Suc (Suc p)) (- 30) 60))"
proof -
  obtain l where l: "random_choice rnd p ls = Inr (l, Suc p)"
    using random_choice_Inr [OF assms(1)] by blast
  obtain g where g: "random_choice rnd (Suc p) guests = Inr (g, Suc (Suc p))"
    using random_choice_Inr [OF assms(2)] by blast
  obtain k where k: "random_randint rnd (Suc (Suc p)) (- 30) 60 = (k, Suc (Suc (Suc p)))"
    by (simp add: random_randint_def)
  obtain d where d: "random_randint rnd (Suc (Suc (Suc p))) 2 14 = (d, Suc (Suc (Suc (Suc p))))"
    by (simp add: random_randint_def)
  obtain st where st: "random_choice rnd (Suc (Suc (Suc (Suc p)))) statuses
                         = Inr (st, Suc (Suc (Suc (Suc (Suc p)))))"
    using random_choice_Inr [OF statuses_nonempty] by blast
  let ?row = "\<lparr>booking_id = next_id s, booking_property = property_id l,
               booking_user = user_id g, start_date = Some (today + k),
               end_date = Some (today + k + d),
               total_price = dec_mul_int (price_per_night l) d, status = st\<rparr>"
  let ?s1 = "s\<lparr>bookings := bookings s @ [?row], next_id := Suc (next_id s)\<rparr>"
  from create_bookings_loop_ok [OF assms, of rnd today n "Suc (Suc (Suc (Suc (Suc p))))" ?s1
      "[?row]"]
  obtain bs p' where
    r: "create_bookings_loop rnd today ls guests n (Suc (Suc (Suc (Suc (Suc p))))) ?s1 [?row]
          = Inr ([?row] @ bs, ?s1\<lparr>bookings := bookings ?s1 @ bs, next_id := next_id ?s1 + n\<rparr>, p')"
    by blast
  have "create_bookings_loop rnd today ls guests (Suc n) p s []
          = Inr (?row # bs, ?s1\<lparr>bookings := bookings ?s1 @ bs, next_id := next_id ?s1 + n\<rparr>, p')"
    using r by (simp add: l g k d st Booking_objects_create_def Let_def)
  then show ?thesis using k by auto
qed

subsection \<open>The claims about the seeder\<close>

text \<open>
  C6. Run with the clear flag on a store whose four tables are empty, \<open>handle\<close> raises no
  error whatever the random draws are, and it leaves exactly 6 Users, 8 Listings and 15
  Bookings and at most 18 Reviews in the store: the rows it has just created.
\<close>

theorem seed_clear_on_empty_store:
  assumes "users s = []" and "listings s = []" and "bookings s = []" and "reviews s = []"
  shows "\<exists>r. handle True rnd today s = Inr r
           \<and> length (users (seeded_store r)) = 6
           \<and> length (listings (seeded_store r)) = 8
           \<and> length (bookings (seeded_store r)) = 15
           \<and> length (reviews (seeded_store r)) \<le> 18
           \<and> listings (seeded_store r) = seeded_listings r
           \<and> bookings (seeded_store r) = seeded_bookings r
           \<and> reviews (seeded_store r) = seeded_reviews r"
proof -
  have ok: "store_ok s" using assms by (simp add: store_ok_def)
  have s0: "s = (if True then clear_data s else s)"
    using clear_data_empty [OF assms] by simp
  from handle_ok [OF ok s0, of rnd today] obtain r new where
    h: "handle True rnd today s = Inr r"
      "seeded_store r
         = s\<lparr>users := users s @ new, listings := listings s @ seeded_listings r,
              bookings := bookings s @ seeded_bookings r,
              reviews := reviews s @ seeded_reviews r,
              next_id := next_id s + length new + 23 + length (seeded_reviews r)\<rparr>"
      "map username (seeded_users r) = map ud_username users_data"
      "set (seeded_users r) \<subseteq> set (users s @ new)"
      "distinct (map username (users s @ new))"
      "username ` set new \<subseteq> ud_username ` set users_data"
      "length (seeded_listings r) = 8" "length (seeded_bookings r) = 15"
      "length (seeded_reviews r) \<le> 18"
    by blast
  let ?names = "map ud_username users_data"
  have sub: "set (seeded_users r) \<subseteq> set new" using h(4) assms(1) by simp
  have dn: "distinct (map username new)" using h(5) assms(1) by simp
  have "set ?names = username ` set (seeded_users r)" using h(3) by (metis set_map)
  then have "set ?names \<subseteq> username ` set new" using sub by auto
  then have eq: "set (map username new) = set ?names" using h(6) by auto
  have "length new = card (set (map username new))"
    using dn by (metis distinct_card length_map)
  also have "\<dots> = card (set ?names)" using eq by simp
  also have "\<dots> = length ?names" using users_data_distinct by (rule distinct_card)
  also have "\<dots> = 6" by (simp add: users_data_names)
  finally have len_new: "length new = 6" .
  show ?thesis
    using h(1) h(7,8,9) len_new assms by (intro exI [of _ r]) (simp add: h(2))
qed

theorem seed_clear_on_empty_store_witness:
  "\<exists>r. handle True (\<lambda>i. 7 * i + 3) 0 empty_store = Inr r
       \<and> length (users (seeded_store r)) = 6
       \<and> length (listings (seeded_store r)) = 8
       \<and> length (bookings (seeded_store r)) = 15
       \<and> length (reviews (seeded_store r)) \<le> 18"
  using seed_clear_on_empty_store [of empty_store "\<lambda>i. 7 * i + 3" 0]
  by (simp add: empty_store_def) blast

text \<open>
  C7. Every Booking a seeding run produces belongs to one of the Listings of that run and
  has a start date \<open>today + k\<close> with \<open>-30 \<le> k \<le> 60\<close>, an end date \<open>d\<close> days after its
  start with \<open>2 \<le> d \<le> 14\<close>, and as total price the nightly price of its Listing times
  \<open>d\<close>: the coefficient is the exact integer product, the exponent is unchanged, and the
  numeric value is the exact product (no digit is rounded away).
\<close>

theorem seeded_booking_dates_and_price:
  assumes "handle clear rnd today s = Inr r" and "b \<in> set (seeded_bookings r)"
  shows "\<exists>l \<in> set (seeded_listings r). \<exists>k d.
           - 30 \<le> k \<and> k \<le> 60 \<and> 2 \<le> d \<and> d \<le> 14
         \<and> start_date b = Some (today + k) \<and> end_date b = Some (today + k + d)
         \<and> booking_property b = property_id l
         \<and> total_price b = dec_mul_int (price_per_night l) d
         \<and> dec_int (total_price b) = dec_int (price_per_night l) * nat d
         \<and> dec_exp (total_price b) = dec_exp (price_per_night l)
         \<and> dec_val (total_price b) = dec_val (price_per_night l) * of_int d"
proof -
  from handle_Inr [OF assms(1)] obtain us s1 ls s2 bs s3 p rs s4 p' where
    h: "create_listings us s1 = Inr (ls, s2)"
      "create_bookings rnd today ls us 0 s2 = Inr (bs, s3, p)"
      "r = \<lparr>seeded_users = us, seeded_listings = ls, seeded_bookings = bs,
            seeded_reviews = rs, seeded_store = s4\<rparr>"
    by blast
  have prices: "map price_per_night ls = map ld_price_per_night listings_data"
    using create_listings_result [OF h(1)] by simp
  have "b \<in> set bs" using assms(2) h(3) by simp
  then have "seeded_booking today ls (filter (\<lambda>u. str_contains ''guest'' (username u)) us) b"
    using create_bookings_result [OF h(2)] by blast
  then obtain l k d where
    b: "l \<in> set ls" "- 30 \<le> k" "k \<le> 60" "2 \<le> d" "d \<le> 14"
      "start_date b = Some (today + k)" "end_date b = Some (today + k + d)"
      "total_price b = dec_mul_int (price_per_night l) d"
      "booking_property b = property_id l"
    unfolding seeded_booking_def by blast
  have pm: "price_per_night l \<in> set (map ld_price_per_night listings_data)"
    using b(1) prices by (metis image_eqI set_map)
  from seed_price_small [OF pm] have small: "dec_int (price_per_night l) \<le> 45000" by simp
  have "nat \<bar>d\<bar> \<le> 14" using b(4,5) by simp
  then have "dec_int (price_per_night l) * nat \<bar>d\<bar> \<le> 45000 * 14"
    using small by (rule mult_le_mono [rotated])
  then have lt: "dec_int (price_per_night l) * nat \<bar>d\<bar> < 10 ^ 28" by simp
  have nd: "nat \<bar>d\<bar> = nat d" using b(4) by simp
  have rep: "dec_int (total_price b) = dec_int (price_per_night l) * nat d"
    "dec_exp (total_price b) = dec_exp (price_per_night l)"
    using dec_mul_int_small [OF lt] b(8) nd by simp_all
  have val: "dec_val (total_price b) = dec_val (price_per_night l) * of_int d"
    using dec_mul_int_exact [OF lt] b(8) by simp
  have "l \<in> set (seeded_listings r)" using b(1) h(3) by simp
  then show ?thesis using b rep val by blast
qed

theorem seeded_booking_dates_and_price_witness:
  "\<exists>r b. handle True (\<lambda>i. 7 * i + 3) 100 empty_store = Inr r \<and> b \<in> set (seeded_bookings r)
     \<and> (\<exists>l \<in> set (seeded_listings r). \<exists>k d.
           - 30 \<le> k \<and> k \<le> 60 \<and> 2 \<le> d \<and> d \<le> 14
         \<and> start_date b = Some (100 + k) \<and> end_date b = Some (100 + k + d)
         \<and> dec_val (total_price b) = dec_val (price_per_night l) * of_int d)"
proof -
  have ok: "store_ok empty_store" by (simp add: store_ok_def empty_store_def)
  have s0: "empty_store = (if True then clear_data empty_store else empty_store)"
    by (simp add: clear_data_empty empty_store_def)
  from handle_ok [OF ok s0, of "\<lambda>i. 7 * i + 3" 100] obtain r where
    r: "handle True (\<lambda>i. 7 * i + 3) 100 empty_store = Inr r" "length (seeded_bookings r) = 15"
    by blast
  then obtain b where b: "b \<in> set (seeded_bookings r)"
    by (cases "seeded_bookings r") auto
  from seeded_booking_dates_and_price [OF r(1) b] r(1) b show ?thesis by blast
qed

text \<open>
  C8, as stated, fails on the start date: when every random draw is the smallest one, the
  run on the empty store at day 0 creates a Booking that starts at day \<open>-30\<close>, in the past.
  The offset is drawn by \<open>random.randint(-30, 60)\<close>.
\<close>

theorem seeded_booking_starts_in_the_past:
  "\<exists>r b. handle True (\<lambda>i. 0) 0 empty_store = Inr r \<and> b \<in> set (seeded_bookings r)
     \<and> start_date b = Some (- 30) \<and> (- 30 :: int) < 0"
proof -
  have ok: "store_ok empty_store" by (simp add: store_ok_def empty_store_def)
  have s0: "empty_store = (if True then clear_data empty_store else empty_store)"
    by (simp add: clear_data_empty empty_store_def)
  from handle_ok [OF ok s0, of "\<lambda>i. 0" 0] obtain r where
    r: "handle True (\<lambda>i. 0) 0 empty_store = Inr r"
    by blast
  from handle_Inr [OF r] obtain us s1 ls s2 bs s3 p rs s4 p' where
    h: "create_bookings (\<lambda>i. 0) 0 ls us 0 s2 = Inr (bs, s3, p)"
      "r = \<lparr>seeded_users = us, seeded_listings = ls, seeded_bookings = bs,
            seeded_reviews = rs, seeded_store = s4\<rparr>"
    by blast
  let ?guests = "filter (\<lambda>u. str_contains ''guest'' (username u)) us"
  from create_bookings_nonempty [OF h(1)] have ne: "ls \<noteq> []" "?guests \<noteq> []" by simp_all
  from create_bookings_loop_first [OF ne, of "\<lambda>i. 0" 0 14 0 s2] h(1)
  have "bs \<noteq> []" and "start_date (hd bs) = Some (- 30)"
    by (auto simp: create_bookings_def random_randint_def)
  then have "hd bs \<in> set bs" "start_date (hd bs) = Some (- 30)" by simp_all
  then show ?thesis using r h(2) by (intro exI [of _ r] exI [of _ "hd bs"]) simp
qed

text \<open>
  C8, amended. Every row a seeding run produces satisfies the invariants of the data model
  that the model layer states: every seeded Listing has a positive price, which
  \<open>validate_price_per_night\<close> accepts; every seeded Booking has its end date after its
  start date (so \<open>Booking.clean\<close> accepts it), a positive total price, and a start date
  no earlier than 30 days before today; every seeded Review has a rating from 1 to 5,
  which \<open>validate_rating\<close> accepts; and no two seeded Reviews share a (Listing, User)
  pair.
\<close>

theorem seeded_rows_satisfy_invariants:
  assumes "handle clear rnd today s = Inr r"
  shows "(\<forall>l \<in> set (seeded_listings r).
             0 < dec_val (price_per_night l)
           \<and> validate_price_per_night (price_per_night l) = Inr (price_per_night l))
       \<and> (\<forall>b \<in> set (seeded_bookings r). \<exists>sd ed.
             start_date b = Some sd \<and> end_date b = Some ed \<and> sd < ed \<and> today - 30 \<le> sd
           \<and> Booking_clean b = Inr () \<and> 0 < dec_val (total_price b))
       \<and> (\<forall>v \<in> set (seeded_reviews r).
             1 \<le> rating v \<and> rating v \<le> 5 \<and> validate_rating (rating v) = Inr (rating v))
       \<and> distinct (map review_pair (seeded_reviews r))"
proof -
  from handle_Inr [OF assms(1)] obtain us s1 ls s2 bs s3 p rs s4 p' where
    h: "create_listings us s1 = Inr (ls, s2)"
      "create_bookings rnd today ls us 0 s2 = Inr (bs, s3, p)"
      "create_reviews rnd ls us p s3 = Inr (rs, s4, p')"
      "r = \<lparr>seeded_users = us, seeded_listings = ls, seeded_bookings = bs,
            seeded_reviews = rs, seeded_store = s4\<rparr>"
    by blast
  have prices: "map price_per_night ls = map ld_price_per_night listings_data"
    using create_listings_result [OF h(1)] by simp
  have pm: "price_per_night l \<in> set (map ld_price_per_night listings_data)"
    if "l \<in> set ls" for l
    using that prices by (metis image_eqI set_map)
  have L: "\<forall>l \<in> set ls. 0 < dec_val (price_per_night l)
             \<and> validate_price_per_night (price_per_night l) = Inr (price_per_night l)"
  proof
    fix l assume "l \<in> set ls"
    from seed_price_times(2) [OF pm [OF this], of 2]
    have pos: "0 < dec_val (price_per_night l)" by simp
    then have "\<not> dec_le_zero (price_per_night l)" by (simp add: dec_le_zero_val)
    then show "0 < dec_val (price_per_night l)
             \<and> validate_price_per_night (price_per_night l) = Inr (price_per_night l)"
      using pos by (simp add: validate_price_per_night_def)
  qed
  have B: "\<forall>b \<in> set bs. \<exists>sd ed.
             start_date b = Some sd \<and> end_date b = Some ed \<and> sd < ed \<and> today - 30 \<le> sd
           \<and> Booking_clean b = Inr () \<and> 0 < dec_val (total_price b)"
  proof
    fix b assume "b \<in> set bs"
    then have "seeded_booking today ls (filter (\<lambda>u. str_contains ''guest'' (username u)) us) b"
      using create_bookings_result [OF h(2)] by blast
    then obtain l k d where
      b: "l \<in> set ls" "- 30 \<le> k" "k \<le> 60" "2 \<le> d" "d \<le> 14"
        "start_date b = Some (today + k)" "end_date b = Some (today + k + d)"
        "total_price b = dec_mul_int (price_per_night l) d"
      unfolding seeded_booking_def by blast
    have pos: "0 < dec_val (total_price b)"
      using seed_price_times(3) [OF pm [OF b(1)] b(4,5)] b(8) by simp
    have cl: "Booking_clean b = Inr ()" using b(4,6,7) by (simp add: Booking_clean_def)
    show "\<exists>sd ed. start_date b = Some sd \<and> end_date b = Some ed \<and> sd < ed
            \<and> today - 30 \<le> sd \<and> Booking_clean b = Inr () \<and> 0 < dec_val (total_price b)"
      using b(2,4,6,7) pos cl by (intro exI [of _ "today + k"] exI [of _ "today + k + d"]) simp
  qed
  have R: "(\<forall>v \<in> set rs. 1 \<le> rating v \<and> rating v \<le> 5
              \<and> validate_rating (rating v) = Inr (rating v))
           \<and> distinct (map review_pair rs)"
    using create_reviews_result [OF h(3)] by (fastforce simp: validate_rating_def)
  show ?thesis using L B R h(4) by simp
qed

theorem seeded_rows_satisfy_invariants_witness:
  "\<exists>r. handle True (\<lambda>i. 7 * i + 3) 100 empty_store = Inr r
     \<and> seeded_listings r \<noteq> [] \<and> seeded_bookings r \<noteq> [] \<and> seeded_reviews r \<noteq> []
     \<and> 0 < dec_val (price_per_night (hd (seeded_listings r)))
     \<and> Booking_clean (hd (seeded_bookings r)) = Inr ()
     \<and> validate_rating (rating (hd (seeded_reviews r))) = Inr (rating (hd (seeded_reviews r)))
     \<and> distinct (map review_pair (seeded_reviews r))"
proof -
  have ok: "store_ok empty_store" by (simp add: store_ok_def empty_store_def)
  have s0: "empty_store = (if True then clear_data empty_store else empty_store)"
    by (simp add: clear_data_empty empty_store_def)
  from handle_ok [OF ok s0, of "\<lambda>i. 7 * i + 3" 100] obtain r where
    r: "handle True (\<lambda>i. 7 * i + 3) 100 empty_store = Inr r"
      "length (seeded_listings r) = 8" "length (seeded_bookings r) = 15"
      "6 \<le> length (seeded_reviews r)"
    by blast
  have ne: "seeded_listings r \<noteq> []" "seeded_bookings r \<noteq> []" "seeded_reviews r \<noteq> []"
    using r(2,3,4) by auto
  then have hd: "hd (seeded_listings r) \<in> set (seeded_listings r)"
    "hd (seeded_bookings r) \<in> set (seeded_bookings r)"
    "hd (seeded_reviews r) \<in> set (seeded_reviews r)" by simp_all
  from seeded_rows_satisfy_invariants [OF r(1)] hd ne r(1) show ?thesis
    by (intro exI [of _ r]) blast
qed

text \<open>
  C9. On a well-formed store, \<open>create_users\<close> run a second time returns the same users
  and leaves the store as the first run left it, and a username already stored is reused
  without any write. A seeding run without the clear flag keeps the users of
  \<open>create_users\<close> (a later \<open>create_users\<close> changes nothing again), and appends 8 new
  Listings, 15 new Bookings and at least 6 new Reviews to whatever the store held; the
  store is well-formed again, so the next run appends as many once more.
\<close>

theorem seeding_users_idempotent_rows_unconditional:
  assumes "store_ok s"
  shows "\<exists>us s1. create_users s = Inr (us, s1) \<and> create_users s1 = Inr (us, s1)
       \<and> (\<forall>u \<in> set (users s). \<forall>d. username u = ud_username d \<longrightarrow> create_user s d = Inr (u, s))
       \<and> (\<exists>r. handle False rnd today s = Inr r
             \<and> seeded_users r = us \<and> users (seeded_store r) = users s1
             \<and> create_users (seeded_store r) = Inr (us, seeded_store r)
             \<and> listings (seeded_store r) = listings s @ seeded_listings r
             \<and> length (seeded_listings r) = 8
             \<and> bookings (seeded_store r) = bookings s @ seeded_bookings r
             \<and> length (seeded_bookings r) = 15
             \<and> reviews (seeded_store r) = reviews s @ seeded_reviews r
             \<and> 6 \<le> length (seeded_reviews r)
             \<and> store_ok (seeded_store r))"
proof -
  have s0: "s = (if False then clear_data s else s)" by simp
  from handle_ok [OF assms s0, of rnd today] obtain r new where
    h: "handle False rnd today s = Inr r"
      "seeded_store r
         = s\<lparr>users := users s @ new, listings := listings s @ seeded_listings r,
              bookings := bookings s @ seeded_bookings r,
              reviews := reviews s @ seeded_reviews r,
              next_id := next_id s + length new + 23 + length (seeded_reviews r)\<rparr>"
      "create_users s
         = Inr (seeded_users r, s\<lparr>users := users s @ new, next_id := next_id s + length new\<rparr>)"
      "map username (seeded_users r) = map ud_username users_data"
      "set (seeded_users r) \<subseteq> set (users s @ new)"
      "length (seeded_listings r) = 8" "length (seeded_bookings r) = 15"
      "6 \<le> length (seeded_reviews r)" "store_ok (seeded_store r)"
    by blast
  let ?us = "seeded_users r"
  let ?s1 = "s\<lparr>users := users s @ new, next_id := next_id s + length new\<rparr>"
  have twice: "create_users ?s1 = Inr (?us, ?s1)"
    using create_users_twice [OF assms h(3)] .
  have reuse: "\<forall>x \<in> set (users s). \<forall>d. username x = ud_username d
                 \<longrightarrow> create_user s d = Inr (x, s)"
    using assms create_user_existing [of s] by (simp add: store_ok_def)
  have du: "distinct (map username (users (seeded_store r)))"
    using h(9) by (simp add: store_ok_def)
  have sub: "set ?us \<subseteq> set (users (seeded_store r))"
    using h(5) by (simp add: h(2))
  have "create_users_loop users_data (seeded_store r) [] = Inr ([] @ ?us, seeded_store r)"
    using du sub h(4) by (intro create_users_loop_existing) simp_all
  then have again: "create_users (seeded_store r) = Inr (?us, seeded_store r)"
    by (simp add: create_users_def)
  have same_users: "users (seeded_store r) = users ?s1" by (simp add: h(2))
  have tables: "listings (seeded_store r) = listings s @ seeded_listings r"
    "bookings (seeded_store r) = bookings s @ seeded_bookings r"
    "reviews (seeded_store r) = reviews s @ seeded_reviews r"
    by (simp_all add: h(2))
  show ?thesis
  proof (rule exI [of _ ?us], rule exI [of _ ?s1], intro conjI)
    show "create_users s = Inr (?us, ?s1)" by (rule h(3))
    show "create_users ?s1 = Inr (?us, ?s1)" by (rule twice)
    show "\<forall>u \<in> set (users s). \<forall>d. username u = ud_username d
            \<longrightarrow> create_user s d = Inr (u, s)" by (rule reuse)
    show "\<exists>r. handle False rnd today s = Inr r
             \<and> seeded_users r = ?us \<and> users (seeded_store r) = users ?s1
             \<and> create_users (seeded_store r) = Inr (?us, seeded_store r)
             \<and> listings (seeded_store r) = listings s @ seeded_listings r
             \<and> length (seeded_listings r) = 8
             \<and> bookings (seeded_store r) = bookings s @ seeded_bookings r
             \<and> length (seeded_bookings r) = 15
             \<and> reviews (seeded_store r) = reviews s @ seeded_reviews r
             \<and> 6 \<le> length (seeded_reviews r)
             \<and> store_ok (seeded_store r)"
      using h(1) same_users again tables h(6,7,8,9) by (intro exI [of _ r]) blast
  qed
qed

theorem seeding_users_idempotent_rows_unconditional_witness:
  "\<exists>r1 r2. handle False (\<lambda>i. 7 * i + 3) 0 empty_store = Inr r1
     \<and> handle False (\<lambda>i. 7 * i + 3) 0 (seeded_store r1) = Inr r2
     \<and> users (seeded_store r2) = users (seeded_store r1)
     \<and> length (listings (seeded_store r1)) = 8
     \<and> length (listings (seeded_store r2)) = 16
     \<and> length (bookings (seeded_store r1)) = 15
     \<and> length (bookings (seeded_store r2)) = 30
     \<and> length (reviews (seeded_store r1)) < length (reviews (seeded_store r2))"
proof -
  have ok: "store_ok empty_store" by (simp add: store_ok_def empty_store_def)
  from seeding_users_idempotent_rows_unconditional [OF ok, of "\<lambda>i. 7 * i + 3" 0]
  obtain us r1 where
    a: "handle False (\<lambda>i. 7 * i + 3) 0 empty_store = Inr r1"
      "create_users (seeded_store r1) = Inr (us, seeded_store r1)"
      "listings (seeded_store r1) = listings empty_store @ seeded_listings r1"
      "length (seeded_listings r1) = 8"
      "bookings (seeded_store r1) = bookings empty_store @ seeded_bookings r1"
      "length (seeded_bookings r1) = 15"
      "store_ok (seeded_store r1)"
    by blast
  from seeding_users_idempotent_rows_unconditional [OF a(7), of "\<lambda>i. 7 * i + 3" 0]
  obtain us2 s2 r2 where
    b: "create_users (seeded_store r1) = Inr (us2, s2)"
      "handle False (\<lambda>i. 7 * i + 3) 0 (seeded_store r1) = Inr r2"
      "users (seeded_store r2) = users s2"
      "listings (seeded_store r2) = listings (seeded_store r1) @ seeded_listings r2"
      "length (seeded_listings r2) = 8"
      "bookings (seeded_store r2) = bookings (seeded_store r1) @ seeded_bookings r2"
      "length (seeded_bookings r2) = 15"
      "reviews (seeded_store r2) = reviews (seeded_store r1) @ seeded_reviews r2"
      "6 \<le> length (seeded_reviews r2)"
    by blast
  have "s2 = seeded_store r1" using a(2) b(1) by simp
  then have u: "users (seeded_store r2) = users (seeded_store r1)" using b(3) by simp
  have "handle False (\<lambda>i. 7 * i + 3) 0 empty_store = Inr r1
     \<and> handle False (\<lambda>i. 7 * i + 3) 0 (seeded_store r1) = Inr r2
     \<and> users (seeded_store r2) = users (seeded_store r1)
     \<and> length (listings (seeded_store r1)) = 8
     \<and> length (listings (seeded_store r2)) = 16
     \<and> length (bookings (seeded_store r1)) = 15
     \<and> length (bookings (seeded_store r2)) = 30
     \<and> length (reviews (seeded_store r1)) < length (reviews (seeded_store r2))"
    using a(1,3,4,5,6) b(2,4,5,6,7,8,9) u by (auto simp: empty_store_def)
  then show ?thesis by blast
qed

end
